theory Spec2Isabelle
  imports Main "HOL-Library.Sublist" "HOL-Library.Multiset"
begin

section \<open>Python primitives used by commitNumber.py\<close>

text \<open>
  A Python \<^verbatim>\<open>bytes\<close> value is a list of 8-bit characters, and so is a \<^verbatim>\<open>str\<close>
  (every string the program builds from object contents is the \<^verbatim>\<open>repr\<close> of a bytes
  value, which is printable ASCII).  \<^verbatim>\<open>None\<close> is \<open>None\<close> of an option type.
\<close>

type_synonym bytes = "char list"

abbreviation bslash :: char where "bslash \<equiv> CHR 0x5C"
abbreviation squote :: char where "squote \<equiv> CHR 0x27"
abbreviation dquote :: char where "dquote \<equiv> CHR 0x22"
abbreviation NUL :: char where "NUL \<equiv> CHR 0x00"
abbreviation LF :: char where "LF \<equiv> CHR 0x0A"

definition hexdigit :: "nat \<Rightarrow> char" where
  "hexdigit n = ''0123456789abcdef'' ! (n mod 16)"

text \<open>\<^verbatim>\<open>bytes.hex()\<close>: two lower-case hexadecimal digits per byte.\<close>

definition hex_byte :: "char \<Rightarrow> string" where
  "hex_byte c = [hexdigit ((of_char c :: nat) div 16), hexdigit (of_char c :: nat)]"

definition hex :: "bytes \<Rightarrow> string" where
  "hex bs = concat (map hex_byte bs)"

text \<open>
  \<^verbatim>\<open>str(contents)\<close> of a bytes value is its \<^verbatim>\<open>repr\<close>: the letter b, a quote, the
  escaped bytes, the quote.  The quote is the double quote exactly when the value holds a
  single quote and no double quote.  The quote and the backslash are escaped by a
  backslash, tab, newline and carriage return as \<^verbatim>\<open>\t \n \r\<close>, any other byte outside
  0x20..0x7e as \<^verbatim>\<open>\xhh\<close>.
\<close>

definition quote_of :: "bytes \<Rightarrow> char" where
  "quote_of bs = (if squote \<in> set bs \<and> dquote \<notin> set bs then dquote else squote)"

definition esc_byte :: "char \<Rightarrow> char \<Rightarrow> string" where
  "esc_byte q c =
     (if c = q \<or> c = bslash then [bslash, c]
      else if c = CHR 0x09 then [bslash, CHR ''t'']
      else if c = LF then [bslash, CHR ''n'']
      else if c = CHR 0x0D then [bslash, CHR ''r'']
      else if (of_char c :: nat) < 32 \<or> 127 \<le> (of_char c :: nat)
           then [bslash, CHR ''x''] @ hex_byte c
      else [c])"

definition str_bytes :: "bytes \<Rightarrow> string" where
  "str_bytes bs =
     (let q = quote_of bs in [CHR ''b'', q] @ concat (map (esc_byte q) bs) @ [q])"

text \<open>\<^verbatim>\<open>str.startswith\<close>.\<close>

definition startswith :: "string \<Rightarrow> string \<Rightarrow> bool" where
  "startswith s p = (take (length p) s = p)"

text \<open>\<^verbatim>\<open>str(n)\<close> of a non-negative integer, and of an integer.\<close>

fun digits_of :: "nat \<Rightarrow> nat \<Rightarrow> string" where
  "digits_of 0 n = []"
| "digits_of (Suc f) n =
     (if n < 10 then [hexdigit n] else digits_of f (n div 10) @ [hexdigit (n mod 10)])"

definition str_nat :: "nat \<Rightarrow> string" where
  "str_nat n = digits_of (Suc n) n"

definition str_int :: "int \<Rightarrow> string" where
  "str_int i = (if i < 0 then CHR ''-'' # str_nat (nat (- i)) else str_nat (nat i))"

text \<open>\<^verbatim>\<open>str(x)\<close> of a value that is a string or \<^verbatim>\<open>None\<close>.\<close>

definition str_opt :: "string option \<Rightarrow> string" where
  "str_opt v = (case v of None \<Rightarrow> ''None'' | Some s \<Rightarrow> s)"

subsection \<open>Output\<close>

text \<open>
  \<^verbatim>\<open>print(a, b, ...)\<close> writes its arguments, separated by single spaces and followed
  by a newline, to \<^verbatim>\<open>sys.stdout\<close>: the program passes no \<^verbatim>\<open>file=\<close> argument anywhere.
  The output of a run is the list of its writes, each with the stream it went to.
\<close>

datatype stream = Stdout | Stderr

type_synonym out = "stream \<times> string"

fun join_sp :: "string list \<Rightarrow> string" where
  "join_sp [] = []"
| "join_sp [a] = a"
| "join_sp (a # b # r) = a @ '' '' @ join_sp (b # r)"

definition print :: "string list \<Rightarrow> out" where
  "print args = (Stdout, join_sp args @ [LF])"

subsection \<open>Errors\<close>

text \<open>
  The exceptions the program can raise and never catches: a missing dictionary key
  (the key, which may be \<^verbatim>\<open>None\<close>), \<^verbatim>\<open>int()\<close> of something that is no
  integer literal, and \<^verbatim>\<open>zlib.error\<close> from the decompressor.  A computation yields
  what it printed and either the exception that ended it or its value.
\<close>

datatype error = KeyError "string option" | ValueError | TypeError | ZlibError

type_synonym 'a result = "out list \<times> (error + 'a)"

definition bnd :: "'a result \<Rightarrow> ('a \<Rightarrow> 'b result) \<Rightarrow> 'b result" where
  "bnd m f = (case m of
      (o1, Inl e) \<Rightarrow> (o1, Inl e)
    | (o1, Inr x) \<Rightarrow> (case f x of (o2, r) \<Rightarrow> (o1 @ o2, r)))"

subsection \<open>Dictionaries\<close>

text \<open>
  A \<^verbatim>\<open>dict\<close> keeps its keys in insertion order; assigning to a key that is present
  replaces the value and keeps the key's place.  Iterating the dictionary yields the keys
  in that order.
\<close>

type_synonym 'v dict = "(string \<times> 'v) list"

fun dict_set :: "string \<Rightarrow> 'v \<Rightarrow> 'v dict \<Rightarrow> 'v dict" where
  "dict_set k v [] = [(k, v)]"
| "dict_set k v (p # ps) = (if fst p = k then (k, v) # ps else p # dict_set k v ps)"

definition keys :: "'v dict \<Rightarrow> string list" where
  "keys d = map fst d"

definition has_key :: "'v dict \<Rightarrow> string \<Rightarrow> bool" where
  "has_key d k = (k \<in> set (keys d))"

text \<open>\<^verbatim>\<open>d[k]\<close>: the value, or \<^verbatim>\<open>KeyError\<close>.  The key may be \<^verbatim>\<open>None\<close>, which no
  dictionary of the program holds.\<close>

definition dict_get :: "'v dict \<Rightarrow> string option \<Rightarrow> 'v result" where
  "dict_get d k = (case k of
      None \<Rightarrow> ([], Inl (KeyError None))
    | Some s \<Rightarrow> (case map_of d s of
         None \<Rightarrow> ([], Inl (KeyError (Some s)))
       | Some v \<Rightarrow> ([], Inr v)))"

subsection \<open>Regular expressions\<close>

text \<open>
  The fragment of \<^verbatim>\<open>re\<close> the three patterns use: anchors, literal text, one character
  of a class, greedy \<^verbatim>\<open>+\<close> and \<^verbatim>\<open>*\<close> of a class, numbered groups and a greedy
  optional part.  Matching is by backtracking: \<open>ms\<close> lists every way a pattern matches
  at a position, in the order the backtracking matcher tries them, so that its head is
  the match \<^verbatim>\<open>re\<close> reports.  A matcher state is the position, the rest of the
  subject and the groups set so far.
\<close>

type_synonym caps = "nat \<Rightarrow> string option"
type_synonym mstate = "nat \<times> string \<times> caps"

datatype rx =
    Bol
  | Eol
  | Lit string
  | One "char \<Rightarrow> bool"
  | Plus "char \<Rightarrow> bool"
  | Star "char \<Rightarrow> bool"
  | Grp nat "rx list"
  | Opt "rx list"

fun m1 :: "rx \<Rightarrow> mstate \<Rightarrow> mstate list"
  and ms :: "rx list \<Rightarrow> mstate \<Rightarrow> mstate list" where
  "m1 Bol (i, s, c) = (if i = 0 then [(i, s, c)] else [])"
| "m1 Eol (i, s, c) = (if s = [] \<or> s = [LF] then [(i, s, c)] else [])"
| "m1 (Lit l) (i, s, c) =
     (if take (length l) s = l then [(i + length l, drop (length l) s, c)] else [])"
| "m1 (One P) (i, s, c) =
     (case s of [] \<Rightarrow> [] | x # t \<Rightarrow> if P x then [(Suc i, t, c)] else [])"
| "m1 (Plus P) (i, s, c) =
     map (\<lambda>j. (i + j, drop j s, c)) (rev [1..<Suc (length (takeWhile P s))])"
| "m1 (Star P) (i, s, c) =
     map (\<lambda>j. (i + j, drop j s, c)) (rev [0..<Suc (length (takeWhile P s))])"
| "m1 (Grp n body) (i, s, c) =
     map (\<lambda>(i', s', c'). (i', s', c'(n \<mapsto> take (i' - i) s))) (ms body (i, s, c))"
| "m1 (Opt body) st = ms body st @ [st]"
| "ms [] st = [st]"
| "ms (r # rs) st = concat (map (ms rs) (m1 r st))"

text \<open>\<^verbatim>\<open>pattern.search(s)\<close>: the first match at the leftmost position that has one;
  the value is the match object's groups, \<^verbatim>\<open>None\<close> when there is no match.\<close>

definition first_match :: "mstate list \<Rightarrow> caps option" where
  "first_match xs = (case xs of [] \<Rightarrow> None | (_, _, c) # _ \<Rightarrow> Some c)"

definition search :: "rx list \<Rightarrow> string \<Rightarrow> caps option" where
  "search r s =
     first_match (concat (map (\<lambda>i. ms r (i, drop i s, Map.empty)) [0..<Suc (length s)]))"

text \<open>The numbers of the groups of a pattern.\<close>

fun grps :: "rx \<Rightarrow> nat set" and grps_list :: "rx list \<Rightarrow> nat set" where
  "grps (Grp n body) = insert n (grps_list body)"
| "grps (Opt body) = grps_list body"
| "grps Bol = {}"
| "grps Eol = {}"
| "grps (Lit l) = {}"
| "grps (One P) = {}"
| "grps (Plus P) = {}"
| "grps (Star P) = {}"
| "grps_list [] = {}"
| "grps_list (r # rs) = grps r \<union> grps_list rs"

text \<open>The character classes: \<^verbatim>\<open>[0-9]\<close>, \<^verbatim>\<open>[0-9a-f]\<close>, \<^verbatim>\<open>[A-Za-z ]\<close>, \<^verbatim>\<open>\w\<close>
  and the dot, which is any character but a newline.  The class \<^verbatim>\<open>\w\<close> is given on
  ASCII, where it is the letters, the digits and the underscore: the patterns are only
  run on the text of a bytes value, which is printable ASCII.\<close>

definition is_digit :: "char \<Rightarrow> bool" where
  "is_digit c = (c \<in> set ''0123456789'')"

definition is_hex :: "char \<Rightarrow> bool" where
  "is_hex c = (c \<in> set ''0123456789abcdef'')"

definition is_name :: "char \<Rightarrow> bool" where
  "is_name c =
     (c \<in> set ''ABCDEFGHIJKLMNOPQRSTUVWXYZabcdefghijklmnopqrstuvwxyz '')"

definition is_word :: "char \<Rightarrow> bool" where
  "is_word c =
     (c \<in> set ''ABCDEFGHIJKLMNOPQRSTUVWXYZabcdefghijklmnopqrstuvwxyz0123456789_'')"

definition is_any :: "char \<Rightarrow> bool" where
  "is_any c = (c \<noteq> LF)"

text \<open>
  \<^verbatim>\<open>int(x)\<close> of a value that is a string or \<^verbatim>\<open>None\<close>.  \<^verbatim>\<open>None\<close> is a
  \<^verbatim>\<open>TypeError\<close>.  A string is an integer literal when, with white space stripped from
  both ends and after an optional sign, it is one or more digits, where single
  underscores may stand between digits; a literal of more than 4300 digits is refused
  (the interpreter's default limit).  Anything else is a \<^verbatim>\<open>ValueError\<close>.  The
  white space that is stripped is tab, newline, vertical tab, form feed, carriage return
  and space, and the two spaces beyond ASCII, 0x85 and 0xA0; the separators 0x1C to 0x1F
  are not stripped.
\<close>

definition is_space :: "char \<Rightarrow> bool" where
  "is_space c = (c \<in> set [CHR 0x09, LF, CHR 0x0B, CHR 0x0C, CHR 0x0D, CHR '' '',
                            CHR 0x85, CHR 0xA0])"

definition strip :: "string \<Rightarrow> string" where
  "strip s = rev (dropWhile is_space (rev (dropWhile is_space s)))"

definition digit_val :: "char \<Rightarrow> nat" where
  "digit_val c = (of_char c :: nat) - 48"

definition dec_val :: "string \<Rightarrow> nat" where
  "dec_val ds = foldl (\<lambda>a c. 10 * a + digit_val c) 0 ds"

fun digit_groups :: "string \<Rightarrow> bool" where
  "digit_groups [] = False"
| "digit_groups [c] = is_digit c"
| "digit_groups (c # d # r) =
     (is_digit c \<and> (if d = CHR ''_'' then digit_groups r else digit_groups (d # r)))"

definition int_max_str_digits :: nat where
  "int_max_str_digits = 4300"

definition int_unsigned :: "string \<Rightarrow> error + int" where
  "int_unsigned s =
     (if \<not> digit_groups s then Inl ValueError
      else let ds = filter is_digit s in
        if int_max_str_digits < length ds then Inl ValueError
        else Inr (int (dec_val ds)))"

definition py_int :: "string option \<Rightarrow> error + int" where
  "py_int v = (case v of
      None \<Rightarrow> Inl TypeError
    | Some s \<Rightarrow> (case strip s of
         [] \<Rightarrow> Inl ValueError
       | c # r \<Rightarrow>
           if c = CHR ''-'' then map_sum id uminus (int_unsigned r)
           else if c = CHR ''+'' then int_unsigned r
           else int_unsigned (c # r)))"

section \<open>The data classes\<close>

text \<open>
  The fields that \<open>parseObject\<close> fills hold what \<^verbatim>\<open>match.group(k)\<close> returned: a
  string, or \<^verbatim>\<open>None\<close> for a group that took no part in the match.  The field
  \<open>num\<close> of the three classes is \<open>commit_num\<close>, \<open>blob_num\<close> and \<open>tree_num\<close>
  here, and the two times of \<open>Commit\<close> are \<open>row_author_time\<close> and
  \<open>row_commit_time\<close>, since a field name belongs to one record.
\<close>

record GitCommit =
  commit_num :: "string option"
  tree_id :: "string option"
  parent_id :: "string option"
  author :: "string option"
  author_time :: "string option"
  committer :: "string option"
  commit_time :: "string option"

record GitBlob =
  blob_num :: "string option"
  commit_order :: "string option"

record GitTree =
  tree_num :: "string option"
  data :: "string option"
  binary_data :: bytes

text \<open>\<open>GitTree.blobId\<close>: the hexadecimal form of the last 20 bytes (of all of them
  when there are fewer).\<close>

definition blobId :: "GitTree \<Rightarrow> string" where
  "blobId t = hex (drop (length (binary_data t) - 20) (binary_data t))"

record Commit =
  hash :: string
  order :: int
  original_parent_hash :: "string option"
  original_parent_order :: "string option"
  row_author_time :: "string option"
  row_commit_time :: "string option"

definition tablePrefix :: string where
  "tablePrefix = ''Hash'' @ [CHR 0x09] @ ''Order'' @ [CHR 0x09] @ ''Parent'' @ [CHR 0x09]
     @ ''ParentOrder'' @ [CHR 0x09] @ ''AuthorTime'' @ [CHR 0x09] @ ''CommitTime''"

definition str_Commit :: "Commit \<Rightarrow> string" where
  "str_Commit c = hash c @ [CHR 0x09] @ str_int (order c) @ [CHR 0x09]
     @ str_opt (original_parent_hash c) @ [CHR 0x09]
     @ str_opt (original_parent_order c) @ [CHR 0x09]
     @ str_opt (row_author_time c) @ [CHR 0x09] @ str_opt (row_commit_time c)"

section \<open>GitParser\<close>

subsection \<open>The patterns\<close>

text \<open>
  The separator and the newline of the patterns are a backslash followed by
  \<^verbatim>\<open>x00\<close> and by \<^verbatim>\<open>n\<close>: the patterns are matched against the \<^verbatim>\<open>repr\<close> text.
  The number of a group is its position in the whole pattern, so the capturing
  constants take it as an argument.
\<close>

definition separator :: "rx list" where
  "separator = [Lit (bslash # ''x00'')]"

definition newline :: "rx list" where
  "newline = [Lit (bslash # ''n'')]"

definition capture_number :: "nat \<Rightarrow> rx list" where
  "capture_number g = [Grp g [Plus is_digit]]"

definition capture_hash :: "nat \<Rightarrow> rx list" where
  "capture_hash g = [Grp g [Plus is_hex]]"

definition capture_time :: "nat \<Rightarrow> rx list" where
  "capture_time g = [Lit ''<> ''] @ capture_number g @ [Lit '' +0000'']"

definition capture_name :: "nat \<Rightarrow> rx list" where
  "capture_name g = [Lit '' '', Grp g [Plus is_name], Lit '' '']"

definition blob_re :: "rx list" where
  "blob_re = [Bol, Lit ''blob ''] @ capture_number 1 @ separator
     @ [Lit ''This is the README in the ''] @ capture_number 2
     @ [One is_word, One is_word, Lit '' commit'', One is_any, Eol]"

definition prefix_re :: "rx list" where
  "prefix_re = [Bol, Lit ''commit ''] @ capture_number 1 @ separator"

definition tree_capture :: "rx list" where
  "tree_capture = [Lit ''tree ''] @ capture_hash 2 @ newline"

definition parent_capture :: "rx list" where
  "parent_capture = [Opt [Grp 3 ([Lit ''parent ''] @ capture_hash 4 @ newline)]]"

definition author_capture :: "rx list" where
  "author_capture = [Lit ''author''] @ capture_name 5 @ capture_time 6 @ newline"

definition committer_capture :: "rx list" where
  "committer_capture = [Lit ''committer''] @ capture_name 7 @ capture_time 8"

definition suffix_re :: "rx list" where
  "suffix_re = newline @ newline @ [Lit ''commit''] @ newline @ [Eol]"

definition commit_re :: "rx list" where
  "commit_re = prefix_re @ tree_capture @ parent_capture @ author_capture
     @ committer_capture @ suffix_re"

definition tree_re :: "rx list" where
  "tree_re = [Bol, Star is_any, Lit ''tree '', Grp 1 [Plus is_digit]] @ separator
     @ [Lit ''100644 README'', Lit ''.txt'', Grp 2 [Star is_any], Eol]"

subsection \<open>The parser state and parseObject\<close>

record GitParser =
  blobs :: "GitBlob dict"
  trees :: "GitTree dict"
  commits :: "GitCommit dict"

definition init :: GitParser where
  "init = \<lparr>blobs = [], trees = [], commits = []\<rparr>"

definition parseObject :: "GitParser \<Rightarrow> string \<Rightarrow> bytes \<Rightarrow> out list \<times> GitParser" where
  "parseObject self h contents =
     (let contentsStr = str_bytes contents in
      if \<not> (startswith contentsStr [CHR ''b'', squote]
             \<or> startswith contentsStr [CHR ''b'', dquote])
      then ([print [''*** UNKNOWN FILE: '', h, '' *** '', contentsStr]], self)
      else
        let contentsStr = butlast (drop 2 contentsStr) in
        case search blob_re contentsStr of
          Some m \<Rightarrow>
            ([], self\<lparr>blobs := dict_set h \<lparr>blob_num = m 1, commit_order = m 2\<rparr> (blobs self)\<rparr>)
        | None \<Rightarrow>
        (case search commit_re contentsStr of
          Some m \<Rightarrow>
            ([], self\<lparr>commits := dict_set h
                   \<lparr>commit_num = m 1, tree_id = m 2, parent_id = m 4, author = m 5,
                    author_time = m 6, committer = m 7, commit_time = m 8\<rparr> (commits self)\<rparr>)
        | None \<Rightarrow>
        (case search tree_re contentsStr of
          Some m \<Rightarrow>
            ([], self\<lparr>trees := dict_set h
                   \<lparr>tree_num = m 1, data = m 2, binary_data = contents\<rparr> (trees self)\<rparr>)
        | None \<Rightarrow>
            ([print [''*** UNKNOWN FILE: '', h, '' *** '', contentsStr]], self))))"

subsection \<open>blobForCommit\<close>

text \<open>The loop over the keys of \<open>self.blobs\<close>: what it prints and the final
  \<open>full_id\<close>.\<close>

fun scan_blobs ::
  "string \<Rightarrow> string \<Rightarrow> string option \<Rightarrow> string list \<Rightarrow> string \<Rightarrow> out list \<times> string" where
  "scan_blobs blob_id h tid [] full_id = ([], full_id)"
| "scan_blobs blob_id h tid (b # bs) full_id =
     (if startswith b blob_id then
        (let o1 = (if full_id \<noteq> blob_id
                   then [print [''ERROR: Got ambiguous short blob ID '', blob_id,
                                '' not found (ref. commit '', h, '' - tree '', str_opt tid,
                                '') which matches '', full_id, '' and '', b]]
                   else []);
             (o2, r) = scan_blobs blob_id h tid bs b
         in (o1 @ o2, r))
      else scan_blobs blob_id h tid bs full_id)"

definition blobForCommit :: "GitParser \<Rightarrow> string \<Rightarrow> GitBlob result" where
  "blobForCommit self h =
     bnd (dict_get (commits self) (Some h)) (\<lambda>commit.
     bnd (dict_get (trees self) (tree_id commit)) (\<lambda>tree.
       let blob_id = blobId tree in
       if \<not> has_key (blobs self) blob_id then
         (let (o1, full_id) = scan_blobs blob_id h (tree_id commit) (keys (blobs self)) blob_id;
              blob_id = full_id;
              o2 = (if \<not> has_key (blobs self) blob_id
                    then [print [''ERROR: Blob '', blob_id, '' not found (ref. commit '', h,
                                 '' - tree '', str_opt (tree_id commit), '')'']]
                    else [])
          in bnd (o1 @ o2, Inr ()) (\<lambda>_. dict_get (blobs self) (Some blob_id)))
       else dict_get (blobs self) (Some blob_id)))"

subsection \<open>Order reconstruction\<close>

definition buildOrderedCommit :: "GitParser \<Rightarrow> string \<Rightarrow> Commit result" where
  "buildOrderedCommit self commit_id =
     bnd (dict_get (commits self) (Some commit_id)) (\<lambda>commit_data.
     bnd ((case parent_id commit_data of
             None \<Rightarrow> []
           | Some pid \<Rightarrow>
               if \<not> has_key (commits self) pid
               then [print [''Commit '', commit_id, '' has unknown parent '', pid]] else [])
          @ (if (case tree_id commit_data of
                   None \<Rightarrow> True | Some t \<Rightarrow> \<not> has_key (trees self) t)
             then [print [''Commit '', commit_id, '' has unknown tree '',
                          str_opt (tree_id commit_data)]]
             else []), Inr ()) (\<lambda>_.
     bnd (blobForCommit self commit_id) (\<lambda>blob.
     bnd (case parent_id commit_data of
            None \<Rightarrow> ([], Inr None)
          | Some pid \<Rightarrow>
              bnd (blobForCommit self pid) (\<lambda>parent_blob. ([], Inr (commit_order parent_blob))))
       (\<lambda>original_parent_order.
     bnd ([], py_int (commit_order blob)) (\<lambda>n.
       ([], Inr \<lparr>hash = commit_id, order = n,
                 original_parent_hash = parent_id commit_data,
                 original_parent_order = original_parent_order,
                 row_author_time = author_time commit_data,
                 row_commit_time = commit_time commit_data\<rparr>))))))"

text \<open>\<^verbatim>\<open>list(map(f, keys))\<close>: the calls are made in order and the first exception ends
  the whole.\<close>

fun map_result :: "('a \<Rightarrow> 'b result) \<Rightarrow> 'a list \<Rightarrow> 'b list result" where
  "map_result f [] = ([], Inr [])"
| "map_result f (x # xs) =
     (case f x of
        (o1, Inl e) \<Rightarrow> (o1, Inl e)
      | (o1, Inr y) \<Rightarrow>
          (case map_result f xs of
             (o2, Inl e) \<Rightarrow> (o1 @ o2, Inl e)
           | (o2, Inr ys) \<Rightarrow> (o1 @ o2, Inr (y # ys))))"

text \<open>\<^verbatim>\<open>list.sort(key=...)\<close> is a stable sort, as \<open>sort_key\<close> is.\<close>

definition orderedCommits :: "GitParser \<Rightarrow> Commit list result" where
  "orderedCommits self =
     bnd (map_result (buildOrderedCommit self) (keys (commits self))) (\<lambda>ordered_commits.
       ([], Inr (sort_key order ordered_commits)))"

section \<open>The script\<close>

text \<open>
  The object directory is what \<^verbatim>\<open>os.listdir\<close> and \<^verbatim>\<open>open(...).read()\<close> give: the
  entries of \<^verbatim>\<open>./.git/objects\<close>, each with the names and contents of its files.
  \<^verbatim>\<open>zlib.decompress\<close> is a parameter: it returns the raw bytes, or nothing where it
  raises \<^verbatim>\<open>zlib.error\<close>.
\<close>

type_synonym objects = "(string \<times> (string \<times> bytes) list) list"

definition ignore_dirs :: "string list" where
  "ignore_dirs = [''info'', ''pack'']"

fun read_files ::
  "(bytes \<Rightarrow> bytes option) \<Rightarrow> string \<Rightarrow> (string \<times> bytes) list \<Rightarrow> GitParser \<Rightarrow> GitParser result" where
  "read_files decompress pre [] parser = ([], Inr parser)"
| "read_files decompress pre ((commit, contents) # fs) parser =
     (case decompress contents of
        None \<Rightarrow> ([], Inl ZlibError)
      | Some contents' \<Rightarrow>
          (case parseObject parser (pre @ commit) contents' of
             (o1, parser') \<Rightarrow>
               (case read_files decompress pre fs parser' of
                  (o2, r) \<Rightarrow> (o1 @ o2, r))))"

fun read_dirs ::
  "(bytes \<Rightarrow> bytes option) \<Rightarrow> objects \<Rightarrow> GitParser \<Rightarrow> GitParser result" where
  "read_dirs decompress [] parser = ([], Inr parser)"
| "read_dirs decompress ((d, fs) # ds) parser =
     (if d \<in> set ignore_dirs then read_dirs decompress ds parser
      else (case read_files decompress d fs parser of
              (o1, Inl e) \<Rightarrow> (o1, Inl e)
            | (o1, Inr parser') \<Rightarrow>
                (case read_dirs decompress ds parser' of (o2, r) \<Rightarrow> (o1 @ o2, r))))"

definition main :: "(bytes \<Rightarrow> bytes option) \<Rightarrow> objects \<Rightarrow> unit result" where
  "main decompress objdir =
     bnd (read_dirs decompress objdir init) (\<lambda>parser.
     bnd ([print [''Total blobs '', str_nat (length (blobs parser)),
                  '' -- total trees '', str_nat (length (trees parser)),
                  '' -- total commits '', str_nat (length (commits parser))],
           print [tablePrefix]], Inr ()) (\<lambda>_.
     bnd (orderedCommits parser) (\<lambda>rows.
       (map (\<lambda>c. print [str_Commit c]) rows, Inr ()))))"

section \<open>Example objects\<close>

text \<open>
  Small objects of the three kinds, used to run the definitions: a blob with a declared
  size and an ordinal, a tree whose last 20 bytes are nineteen letters A and one given
  byte, a commit with a tree and an optional parent line; and the records that
  \<open>parseObject\<close> makes of them.
\<close>

definition ex_blob :: "string \<Rightarrow> string \<Rightarrow> bytes" where
  "ex_blob sz k =
     ''blob '' @ sz @ [NUL] @ ''This is the README in the '' @ k @ '' commit.''"

definition ex_blob_rec :: "string \<Rightarrow> GitBlob" where
  "ex_blob_rec k = \<lparr>blob_num = Some ''37'', commit_order = Some k\<rparr>"

definition ex_tree :: "char \<Rightarrow> bytes" where
  "ex_tree b = ''tree 38'' @ [NUL] @ ''100644 README.txt'' @ [NUL]
     @ replicate 19 (CHR ''A'') @ [b]"

definition ex_tree_rec :: "char \<Rightarrow> GitTree" where
  "ex_tree_rec b = \<lparr>tree_num = Some ''38'',
     data = Some (bslash # ''x00'' @ replicate 19 (CHR ''A'') @ [b]),
     binary_data = ex_tree b\<rparr>"

definition ex_blob_key :: "char \<Rightarrow> string" where
  "ex_blob_key b = hex (replicate 19 (CHR ''A'') @ [b])"

definition ex_commit :: "string \<Rightarrow> string \<Rightarrow> bytes" where
  "ex_commit tree parent_line =
     ''commit 99'' @ [NUL] @ ''tree '' @ tree @ [LF] @ parent_line
     @ ''author Ben Bitdiddle <> 1366331681 +0000'' @ [LF]
     @ ''committer Ben Bitdiddle <> 1366331682 +0000'' @ [LF, LF] @ ''commit'' @ [LF]"

definition ex_parent_c1 :: string where
  "ex_parent_c1 = ''parent c1'' @ [LF]"

definition ex_commit_rec :: "string \<Rightarrow> string option \<Rightarrow> GitCommit" where
  "ex_commit_rec tree parent = \<lparr>commit_num = Some ''99'', tree_id = Some tree,
     parent_id = parent, author = Some ''Ben Bitdiddle'',
     author_time = Some ''1366331681'', committer = Some ''Ben Bitdiddle'',
     commit_time = Some ''1366331682''\<rparr>"

definition parse_objects :: "(string \<times> bytes) list \<Rightarrow> GitParser \<Rightarrow> GitParser" where
  "parse_objects objs p = foldl (\<lambda>p (h, c). snd (parseObject p h c)) p objs"

text \<open>Two commits, the child stored before its parent, with their trees and blobs.\<close>

definition ex_store :: GitParser where
  "ex_store =
     \<lparr>blobs = [(ex_blob_key (CHR ''1''), ex_blob_rec ''1''),
                (ex_blob_key (CHR ''2''), ex_blob_rec ''2'')],
      trees = [(''a1'', ex_tree_rec (CHR ''1'')), (''a2'', ex_tree_rec (CHR ''2''))],
      commits = [(''c2'', ex_commit_rec ''a2'' (Some ''c1'')),
                 (''c1'', ex_commit_rec ''a1'' None)]\<rparr>"

definition ex_row1 :: Commit where
  "ex_row1 = \<lparr>hash = ''c1'', order = 1, original_parent_hash = None,
     original_parent_order = None, row_author_time = Some ''1366331681'',
     row_commit_time = Some ''1366331682''\<rparr>"

definition ex_row2 :: Commit where
  "ex_row2 = \<lparr>hash = ''c2'', order = 2, original_parent_hash = Some ''c1'',
     original_parent_order = Some ''1'', row_author_time = Some ''1366331681'',
     row_commit_time = Some ''1366331682''\<rparr>"

text \<open>A root commit and its tree, with no blob at all.\<close>

definition ex_no_blob :: GitParser where
  "ex_no_blob =
     \<lparr>blobs = [],
      trees = [(''a1'', ex_tree_rec (CHR ''1''))],
      commits = [(''c1'', ex_commit_rec ''a1'' None)]\<rparr>"

text \<open>A commit whose tree and blob are stored and whose parent is not.\<close>

definition ex_dangling :: GitParser where
  "ex_dangling =
     \<lparr>blobs = [(ex_blob_key (CHR ''2''), ex_blob_rec ''2'')],
      trees = [(''a2'', ex_tree_rec (CHR ''2''))],
      commits = [(''c2'', ex_commit_rec ''a2'' (Some ''c1''))]\<rparr>"

text \<open>A root commit whose tree names a blob identifier that two longer blob keys
  start with.\<close>

definition ex_ambiguous :: GitParser where
  "ex_ambiguous =
     \<lparr>blobs = [(ex_blob_key (CHR ''1'') @ ''a'', ex_blob_rec ''1''),
                (ex_blob_key (CHR ''1'') @ ''b'', ex_blob_rec ''2'')],
      trees = [(''a1'', ex_tree_rec (CHR ''1''))],
      commits = [(''c1'', ex_commit_rec ''a1'' None)]\<rparr>"

text \<open>A stand-in for the decompressor: it fails on the empty input (as
  \<^verbatim>\<open>zlib.decompress\<close> does) and returns any other input as it is.\<close>

definition ex_decompress :: "bytes \<Rightarrow> bytes option" where
  "ex_decompress c = (if c = [] then None else Some c)"

text \<open>An object directory with one file that is no object, and one whose first file
  cannot be decompressed.\<close>

definition ex_junk :: objects where
  "ex_junk = [(''ab'', [(''cd'', ''junk'')])]"

definition ex_corrupt :: objects where
  "ex_corrupt = [(''ab'', [(''cd'', []), (''ef'', ''junk'')])]"

text \<open>The object directory of the store \<open>ex_dangling\<close>: the commit, its tree and
  its blob, each in the directory named by the head of its hash.\<close>

definition ex_dangling_dir :: objects where
  "ex_dangling_dir =
     [(''c'', [(''2'', ex_commit ''a2'' ex_parent_c1)]),
      (''a'', [(''2'', ex_tree (CHR ''2''))]),
      (''41'', [(drop 2 (ex_blob_key (CHR ''2'')), ex_blob ''37'' ''2nd'')])]"

section \<open>Basic facts\<close>

lemma bnd_Inl [simp]: "bnd (o1, Inl e) f = (o1, Inl e)"
  by (simp add: bnd_def)

lemma bnd_Inr: "bnd (o1, Inr x) f = (o1 @ fst (f x), snd (f x))"
  by (simp add: bnd_def split: prod.splits)

lemma bnd_eq_Inr:
  "bnd m f = (out, Inr y) \<longleftrightarrow>
     (\<exists>o1 x o2. m = (o1, Inr x) \<and> f x = (o2, Inr y) \<and> out = o1 @ o2)"
  by (cases m; cases "snd m") (auto simp: bnd_def split: prod.splits sum.splits)

lemma buildOrderedCommit_hash:
  "buildOrderedCommit self k = (out, Inr row) \<Longrightarrow> hash row = k"
  by (auto simp: buildOrderedCommit_def bnd_eq_Inr split: option.splits if_splits)

lemma map_result_Inr:
  "map_result f xs = (out, Inr ys) \<Longrightarrow>
     length ys = length xs \<and> (\<forall>i < length xs. \<exists>o1. f (xs ! i) = (o1, Inr (ys ! i)))"
proof (induction xs arbitrary: out ys)
  case Nil
  then show ?case by simp
next
  case (Cons x xs)
  from Cons.prems obtain o1 y o2 ys' where
    fx: "f x = (o1, Inr y)" and rest: "map_result f xs = (o2, Inr ys')" and ys: "ys = y # ys'"
    by (auto split: prod.splits sum.splits)
  from Cons.IH [OF rest] have ih: "length ys' = length xs"
    "\<forall>i < length xs. \<exists>o1. f (xs ! i) = (o1, Inr (ys' ! i))" by auto
  show ?case
  proof (intro conjI allI impI)
    show "length ys = length (x # xs)" using ih ys by simp
  next
    fix i assume "i < length (x # xs)"
    then show "\<exists>o1. f ((x # xs) ! i) = (o1, Inr (ys ! i))"
      using fx ih ys by (cases i) auto
  qed
qed

lemma map_result_hash:
  assumes "map_result (buildOrderedCommit self) ks = (out, Inr built)"
  shows "map hash built = ks"
proof (rule nth_equalityI)
  from map_result_Inr [OF assms] have len: "length built = length ks"
    and each: "\<forall>i < length ks. \<exists>o1. buildOrderedCommit self (ks ! i) = (o1, Inr (built ! i))"
    by auto
  show "length (map hash built) = length ks" using len by simp
  fix i assume "i < length (map hash built)"
  then have i: "i < length ks" using len by simp
  with each obtain o1 where "buildOrderedCommit self (ks ! i) = (o1, Inr (built ! i))" by blast
  then have "hash (built ! i) = ks ! i" by (rule buildOrderedCommit_hash)
  then show "map hash built ! i = ks ! i" using i len by simp
qed

subsection \<open>The example store\<close>

lemma ex_store_ordered: "orderedCommits ex_store = ([], Inr [ex_row1, ex_row2])"
  by code_simp

section \<open>The output of the order reconstructor\<close>

text \<open>
  C6.  When \<open>orderedCommits\<close> returns its rows, they are sorted by \<open>order\<close>
  ascending, so that each row's order is at most the next row's, and the sort is stable:
  the rows of any one order stand in the order in which the commits were built, which is
  the insertion order of the commit dictionary.
\<close>

theorem orderedCommits_sorted_stable:
  assumes "orderedCommits self = (out, Inr rows)"
  shows "sorted (map order rows)
       \<and> (\<forall>i. Suc i < length rows \<longrightarrow> order (rows ! i) \<le> order (rows ! Suc i))
       \<and> (\<exists>built. map_result (buildOrderedCommit self) (keys (commits self)) = (out, Inr built)
             \<and> map hash built = keys (commits self)
             \<and> (\<forall>k. filter (\<lambda>r. order r = k) rows = filter (\<lambda>r. order r = k) built))"
proof -
  from assms obtain built where
    built: "map_result (buildOrderedCommit self) (keys (commits self)) = (out, Inr built)"
    and rows: "rows = sort_key order built"
    by (auto simp: orderedCommits_def bnd_eq_Inr)
  have s: "sorted (map order rows)" using rows by simp
  have adj: "\<forall>i. Suc i < length rows \<longrightarrow> order (rows ! i) \<le> order (rows ! Suc i)"
  proof (intro allI impI)
    fix i assume i: "Suc i < length rows"
    have "map order rows ! i \<le> map order rows ! Suc i"
      using s i by (intro sorted_nth_mono) auto
    then show "order (rows ! i) \<le> order (rows ! Suc i)" using i by simp
  qed
  have st: "\<forall>k. filter (\<lambda>r. order r = k) rows = filter (\<lambda>r. order r = k) built"
    using rows by (simp add: sort_key_stable)
  from s adj built map_result_hash [OF built] st show ?thesis by blast
qed

theorem orderedCommits_sorted_stable_witness:
  "orderedCommits ex_store = ([], Inr [ex_row1, ex_row2])
   \<and> sorted (map order [ex_row1, ex_row2])
   \<and> order ([ex_row1, ex_row2] ! 0) \<le> order ([ex_row1, ex_row2] ! Suc 0)"
  using orderedCommits_sorted_stable [OF ex_store_ordered] ex_store_ordered by simp

text \<open>
  C7 (as amended).  When \<open>orderedCommits\<close> returns its rows, every key of the
  commit dictionary is the hash of exactly one row: the hashes of the rows are the keys,
  each once, and there are as many rows as commits.  (When a lookup raises instead, there
  are no rows at all: the last subsection but one runs the script on such a directory.)
  The keys of a
  dictionary are distinct; the list that stands for the commit dictionary has this
  property in every parser that the script builds (\<open>read_dirs_init_distinct\<close>
  below).
\<close>

theorem orderedCommits_each_commit_once:
  assumes "distinct (keys (commits self))"
    and "orderedCommits self = (out, Inr rows)"
  shows "mset (map hash rows) = mset (keys (commits self))
       \<and> distinct (map hash rows)
       \<and> length rows = length (commits self)"
proof -
  from assms(2) obtain built where
    built: "map_result (buildOrderedCommit self) (keys (commits self)) = (out, Inr built)"
    and rows: "rows = sort_key order built"
    by (auto simp: orderedCommits_def bnd_eq_Inr)
  have h: "map hash built = keys (commits self)" by (rule map_result_hash [OF built])
  have "mset rows = mset built" using rows by simp
  then have m: "mset (map hash rows) = mset (keys (commits self))"
    using h by (metis mset_map)
  then have d: "distinct (map hash rows)" using assms(1) by (metis mset_eq_imp_distinct_iff)
  have "length rows = length (commits self)"
    using m by (metis length_map size_mset keys_def)
  with m d show ?thesis by blast
qed

theorem orderedCommits_each_commit_once_witness:
  "distinct (keys (commits ex_store))
   \<and> orderedCommits ex_store = ([], Inr [ex_row1, ex_row2])
   \<and> mset (map hash [ex_row1, ex_row2]) = mset (keys (commits ex_store))
   \<and> distinct (map hash [ex_row1, ex_row2])
   \<and> length [ex_row1, ex_row2] = length (commits ex_store)"
proof -
  have d: "distinct (keys (commits ex_store))"
    by code_simp
  show ?thesis
    using orderedCommits_each_commit_once [OF d ex_store_ordered] d ex_store_ordered by simp
qed

subsection \<open>The text of a bytes value\<close>

lemma str_bytes_prefix:
  "startswith (str_bytes c) [CHR ''b'', squote] \<or> startswith (str_bytes c) [CHR ''b'', dquote]"
  by (simp add: str_bytes_def startswith_def quote_of_def Let_def)

section \<open>The classifier\<close>

lemma parseObject_cases:
  "(\<exists>m. search blob_re (butlast (drop 2 (str_bytes contents))) = Some m
       \<and> parseObject self h contents =
           ([], self\<lparr>blobs := dict_set h \<lparr>blob_num = m 1, commit_order = m 2\<rparr> (blobs self)\<rparr>))
   \<or> (search blob_re (butlast (drop 2 (str_bytes contents))) = None
       \<and> (\<exists>m. search commit_re (butlast (drop 2 (str_bytes contents))) = Some m
             \<and> parseObject self h contents =
                 ([], self\<lparr>commits := dict_set h
                    \<lparr>commit_num = m 1, tree_id = m 2, parent_id = m 4, author = m 5,
                     author_time = m 6, committer = m 7, commit_time = m 8\<rparr> (commits self)\<rparr>)))
   \<or> (search blob_re (butlast (drop 2 (str_bytes contents))) = None
       \<and> search commit_re (butlast (drop 2 (str_bytes contents))) = None
       \<and> (\<exists>m. search tree_re (butlast (drop 2 (str_bytes contents))) = Some m
             \<and> parseObject self h contents =
                 ([], self\<lparr>trees := dict_set h
                    \<lparr>tree_num = m 1, data = m 2, binary_data = contents\<rparr> (trees self)\<rparr>)))
   \<or> (search blob_re (butlast (drop 2 (str_bytes contents))) = None
       \<and> search commit_re (butlast (drop 2 (str_bytes contents))) = None
       \<and> search tree_re (butlast (drop 2 (str_bytes contents))) = None
       \<and> parseObject self h contents =
           ([print [''*** UNKNOWN FILE: '', h, '' *** '', butlast (drop 2 (str_bytes contents))]],
            self))"
proof -
  have p: "startswith (str_bytes contents) [CHR ''b'', squote]
         \<or> startswith (str_bytes contents) [CHR ''b'', dquote]"
    by (rule str_bytes_prefix)
  show ?thesis
  proof (cases "search blob_re (butlast (drop 2 (str_bytes contents)))")
    case (Some m)
    with p show ?thesis by (simp add: parseObject_def Let_def)
  next
    case b: None
    show ?thesis
    proof (cases "search commit_re (butlast (drop 2 (str_bytes contents)))")
      case (Some m)
      with p b show ?thesis by (simp add: parseObject_def Let_def)
    next
      case c: None
      show ?thesis
      proof (cases "search tree_re (butlast (drop 2 (str_bytes contents)))")
        case (Some m)
        with p b c show ?thesis by (simp add: parseObject_def Let_def)
      next
        case None
        with p b c show ?thesis by (auto simp: parseObject_def Let_def)
      qed
    qed
  qed
qed


lemma parseObject_out:
  "e \<in> set (fst (parseObject self h contents)) \<Longrightarrow>
     e = print [''*** UNKNOWN FILE: '', h, '' *** '', butlast (drop 2 (str_bytes contents))]"
  using parseObject_cases [of contents self h] by auto

text \<open>
  C10.  \<open>parseObject\<close> is a total function of the parser, the hash and the bytes: it
  has no exception.  It tries the blob pattern, then the commit pattern, then the tree
  pattern on the text between the quotes of the \<^verbatim>\<open>repr\<close>; the first that matches
  decides, the hash is stored in that dictionary alone and nothing is printed; when none
  matches the parser is unchanged and the one line printed names the hash.
\<close>

theorem parseObject_first_match:
  "(\<exists>m. search blob_re (butlast (drop 2 (str_bytes contents))) = Some m
       \<and> parseObject self h contents =
           ([], self\<lparr>blobs := dict_set h \<lparr>blob_num = m 1, commit_order = m 2\<rparr> (blobs self)\<rparr>))
   \<or> (search blob_re (butlast (drop 2 (str_bytes contents))) = None
       \<and> (\<exists>m. search commit_re (butlast (drop 2 (str_bytes contents))) = Some m
             \<and> parseObject self h contents =
                 ([], self\<lparr>commits := dict_set h
                    \<lparr>commit_num = m 1, tree_id = m 2, parent_id = m 4, author = m 5,
                     author_time = m 6, committer = m 7, commit_time = m 8\<rparr> (commits self)\<rparr>)))
   \<or> (search blob_re (butlast (drop 2 (str_bytes contents))) = None
       \<and> search commit_re (butlast (drop 2 (str_bytes contents))) = None
       \<and> (\<exists>m. search tree_re (butlast (drop 2 (str_bytes contents))) = Some m
             \<and> parseObject self h contents =
                 ([], self\<lparr>trees := dict_set h
                    \<lparr>tree_num = m 1, data = m 2, binary_data = contents\<rparr> (trees self)\<rparr>)))
   \<or> (search blob_re (butlast (drop 2 (str_bytes contents))) = None
       \<and> search commit_re (butlast (drop 2 (str_bytes contents))) = None
       \<and> search tree_re (butlast (drop 2 (str_bytes contents))) = None
       \<and> parseObject self h contents =
           ([print [''*** UNKNOWN FILE: '', h, '' *** '', butlast (drop 2 (str_bytes contents))]],
            self))"
  by (rule parseObject_cases)

theorem parseObject_first_match_witness:
  "search blob_re (butlast (drop 2 (str_bytes ''junk''))) = None
   \<and> search commit_re (butlast (drop 2 (str_bytes ''junk''))) = None
   \<and> search tree_re (butlast (drop 2 (str_bytes ''junk''))) = None
   \<and> parseObject init ''abcd'' ''junk'' =
       ([print [''*** UNKNOWN FILE: '', ''abcd'', '' *** '', ''junk'']], init)"
proof -
  have b: "search blob_re (butlast (drop 2 (str_bytes ''junk''))) = None" by code_simp
  have c: "search commit_re (butlast (drop 2 (str_bytes ''junk''))) = None" by code_simp
  have t: "search tree_re (butlast (drop 2 (str_bytes ''junk''))) = None" by code_simp
  have s: "butlast (drop 2 (str_bytes ''junk'')) = ''junk''" by code_simp
  show ?thesis
    using parseObject_first_match [of "''junk''" init "''abcd''"] b c t s by simp
qed


section \<open>What the functions print\<close>

lemma print_stdout [simp]: "fst (print args) = Stdout"
  by (simp add: print_def)

lemma sublist_prepend: "sublist a ys \<Longrightarrow> sublist a (xs @ ys)"
  unfolding sublist_def by (metis append.assoc)

lemma sublist_extend: "sublist a ys \<Longrightarrow> sublist a (ys @ zs)"
  unfolding sublist_def by (metis append.assoc)

lemma sublist_join_sp: "a \<in> set args \<Longrightarrow> sublist a (join_sp args)"
proof (induction args rule: join_sp.induct)
  case 1
  then show ?case by simp
next
  case (2 x)
  then show ?case by simp
next
  case (3 x y r)
  show ?case
  proof (cases "a = x")
    case True
    then show ?thesis by simp
  next
    case False
    with 3 have "sublist a (join_sp (y # r))" by simp
    then have "sublist a ((x @ '' '') @ join_sp (y # r))" by (rule sublist_prepend)
    then show ?thesis by simp
  qed
qed

lemma sublist_print: "a \<in> set args \<Longrightarrow> sublist a (snd (print args))"
  using sublist_join_sp [of a args] by (simp add: print_def sublist_extend)

lemma scan_blobs_out:
  "e \<in> set (fst (scan_blobs bid h tid ks full)) \<Longrightarrow> fst e = Stdout \<and> sublist h (snd e)"
proof (induction ks arbitrary: full)
  case Nil
  then show ?case by simp
next
  case (Cons b ks)
  show ?case
  proof (cases "startswith b bid")
    case False
    with Cons show ?thesis by simp
  next
    case True
    obtain o2 r where sc: "scan_blobs bid h tid ks b = (o2, r)"
      by (cases "scan_blobs bid h tid ks b")
    from Cons.prems True sc have
      "e = print [''ERROR: Got ambiguous short blob ID '', bid,
                  '' not found (ref. commit '', h, '' - tree '', str_opt tid,
                  '') which matches '', full, '' and '', b] \<or> e \<in> set o2"
      by (auto simp: Let_def split: if_splits)
    then show ?thesis
    proof
      assume "e \<in> set o2"
      then show ?thesis using Cons.IH [of b] sc by simp
    qed (simp add: sublist_print)
  qed
qed

lemma dict_get_out [simp]: "fst (dict_get d k) = []"
  by (simp add: dict_get_def split: option.splits)

lemma fst_bnd: "fst (bnd m f) = fst m @ (case snd m of Inl e \<Rightarrow> [] | Inr x \<Rightarrow> fst (f x))"
  by (cases m; cases "snd m") (auto simp: bnd_def split: prod.splits)

lemma in_out_bnd:
  "e \<in> set (fst (bnd m f)) \<Longrightarrow>
     e \<in> set (fst m) \<or> (\<exists>x. snd m = Inr x \<and> e \<in> set (fst (f x)))"
  by (auto simp: fst_bnd split: sum.splits)

lemma blobForCommit_out:
  assumes "e \<in> set (fst (blobForCommit self h))"
  shows "fst e = Stdout \<and> sublist h (snd e)"
proof -
  from assms obtain commit :: GitCommit and tree :: GitTree where
    e: "e \<in> set (fst (let blob_id = blobId tree in
       if \<not> has_key (blobs self) blob_id then
         (let (o1, full_id) = scan_blobs blob_id h (tree_id commit) (keys (blobs self)) blob_id;
              blob_id = full_id;
              o2 = (if \<not> has_key (blobs self) blob_id
                    then [print [''ERROR: Blob '', blob_id, '' not found (ref. commit '', h,
                                 '' - tree '', str_opt (tree_id commit), '')'']]
                    else [])
          in bnd (o1 @ o2, Inr ()) (\<lambda>_. dict_get (blobs self) (Some blob_id)))
       else dict_get (blobs self) (Some blob_id)))"
    unfolding blobForCommit_def by (auto dest!: in_out_bnd)
  show ?thesis
  proof (cases "has_key (blobs self) (blobId tree)")
    case True
    with e show ?thesis by (simp add: Let_def)
  next
    case False
    obtain o1 full_id where
      sc: "scan_blobs (blobId tree) h (tree_id commit) (keys (blobs self)) (blobId tree) = (o1, full_id)"
      by (cases "scan_blobs (blobId tree) h (tree_id commit) (keys (blobs self)) (blobId tree)")
    from e False sc have "e \<in> set o1
       \<or> e = print [''ERROR: Blob '', full_id, '' not found (ref. commit '', h,
                                 '' - tree '', str_opt (tree_id commit), '')'']"
      by (auto simp: Let_def fst_bnd split: if_splits)
    moreover have "e \<in> set o1 \<Longrightarrow> fst e = Stdout \<and> sublist h (snd e)"
      using scan_blobs_out [of e "blobId tree" h "tree_id commit" "keys (blobs self)" "blobId tree"] sc
      by simp
    ultimately show ?thesis by (auto simp: sublist_print)
  qed
qed

lemma dict_get_Some: "map_of d k = Some v \<Longrightarrow> dict_get d (Some k) = ([], Inr v)"
  by (simp add: dict_get_def)

lemma dict_get_None: "map_of d k = None \<Longrightarrow> dict_get d (Some k) = ([], Inl (KeyError (Some k)))"
  by (simp add: dict_get_def)

lemma buildOrderedCommit_out:
  assumes "e \<in> set (fst (buildOrderedCommit self h))"
  shows "fst e = Stdout \<and> (sublist h (snd e)
      \<or> (\<exists>c p. map_of (commits self) h = Some c \<and> parent_id c = Some p \<and> sublist p (snd e)))"
proof (cases "map_of (commits self) h")
  case None
  then have "buildOrderedCommit self h = ([], Inl (KeyError (Some h)))"
    by (simp add: buildOrderedCommit_def dict_get_None)
  with assms show ?thesis by simp
next
  case (Some c)
  have "e \<in> set (case parent_id c of
             None \<Rightarrow> []
           | Some pid \<Rightarrow>
               if \<not> has_key (commits self) pid
               then [print [''Commit '', h, '' has unknown parent '', pid]] else [])
       \<or> e \<in> set (if (case tree_id c of
                   None \<Rightarrow> True | Some t \<Rightarrow> \<not> has_key (trees self) t)
             then [print [''Commit '', h, '' has unknown tree '', str_opt (tree_id c)]]
             else [])
       \<or> e \<in> set (fst (blobForCommit self h))
       \<or> (\<exists>pid. parent_id c = Some pid \<and> e \<in> set (fst (blobForCommit self pid)))"
    using assms unfolding buildOrderedCommit_def dict_get_Some [OF Some] bnd_Inr
    by (cases "parent_id c") (auto dest!: in_out_bnd)
  then show ?thesis
  proof (elim disjE exE conjE)
    assume "e \<in> set (case parent_id c of
             None \<Rightarrow> []
           | Some pid \<Rightarrow>
               if \<not> has_key (commits self) pid
               then [print [''Commit '', h, '' has unknown parent '', pid]] else [])"
    then show ?thesis
      by (auto simp: sublist_print split: option.splits if_splits)
  next
    assume "e \<in> set (if (case tree_id c of
                   None \<Rightarrow> True | Some t \<Rightarrow> \<not> has_key (trees self) t)
             then [print [''Commit '', h, '' has unknown tree '', str_opt (tree_id c)]]
             else [])"
    then show ?thesis
      by (auto simp: sublist_print split: if_splits)
  next
    assume "e \<in> set (fst (blobForCommit self h))"
    then show ?thesis using blobForCommit_out by blast
  next
    fix pid assume "parent_id c = Some pid" "e \<in> set (fst (blobForCommit self pid))"
    then show ?thesis using blobForCommit_out Some by blast
  qed
qed

lemma map_result_out:
  "e \<in> set (fst (map_result f xs)) \<Longrightarrow> \<exists>x \<in> set xs. e \<in> set (fst (f x))"
  by (induction xs arbitrary: e) (auto split: prod.splits sum.splits)

lemma orderedCommits_out:
  assumes "e \<in> set (fst (orderedCommits self))"
  shows "fst e = Stdout"
proof -
  from assms have "e \<in> set (fst (map_result (buildOrderedCommit self) (keys (commits self))))"
    by (auto simp: orderedCommits_def fst_bnd split: sum.splits)
  then obtain x where "e \<in> set (fst (buildOrderedCommit self x))"
    using map_result_out by blast
  then show ?thesis using buildOrderedCommit_out by blast
qed

subsection \<open>Reading the object directory\<close>

lemma read_files_Cons:
  "read_files dec pre ((f, c) # fs) p =
     (case dec c of
        None \<Rightarrow> ([], Inl ZlibError)
      | Some c' \<Rightarrow>
          (fst (parseObject p (pre @ f) c')
             @ fst (read_files dec pre fs (snd (parseObject p (pre @ f) c'))),
           snd (read_files dec pre fs (snd (parseObject p (pre @ f) c')))))"
  by (simp split: option.splits prod.splits)

lemma read_dirs_Cons:
  "read_dirs dec ((d, fs) # ds) p =
     (if d \<in> set ignore_dirs then read_dirs dec ds p
      else (case snd (read_files dec d fs p) of
              Inl e \<Rightarrow> (fst (read_files dec d fs p), Inl e)
            | Inr p' \<Rightarrow>
                (fst (read_files dec d fs p) @ fst (read_dirs dec ds p'),
                 snd (read_dirs dec ds p'))))"
  by (simp split: sum.splits prod.splits)

lemma read_files_out:
  "e \<in> set (fst (read_files dec pre fs p)) \<Longrightarrow>
     \<exists>h s. e = print [''*** UNKNOWN FILE: '', h, '' *** '', s]"
proof (induction fs arbitrary: p)
  case Nil
  then show ?case by simp
next
  case (Cons a fs)
  obtain f c where a: "a = (f, c)" by (cases a)
  show ?case
  proof (cases "dec c")
    case None
    with Cons.prems a show ?thesis by simp
  next
    case (Some c')
    from Cons.prems a Some have "e \<in> set (fst (parseObject p (pre @ f) c'))
       \<or> e \<in> set (fst (read_files dec pre fs (snd (parseObject p (pre @ f) c'))))"
      by (simp add: read_files_Cons del: read_files.simps)
    then show ?thesis
    proof
      assume "e \<in> set (fst (parseObject p (pre @ f) c'))"
      then show ?thesis using parseObject_out by blast
    next
      assume "e \<in> set (fst (read_files dec pre fs (snd (parseObject p (pre @ f) c'))))"
      then show ?thesis by (rule Cons.IH)
    qed
  qed
qed

lemma read_dirs_out:
  "e \<in> set (fst (read_dirs dec ds p)) \<Longrightarrow>
     \<exists>h s. e = print [''*** UNKNOWN FILE: '', h, '' *** '', s]"
proof (induction ds arbitrary: p)
  case Nil
  then show ?case by simp
next
  case (Cons a ds)
  obtain d fs where a: "a = (d, fs)" by (cases a)
  show ?case
  proof (cases "d \<in> set ignore_dirs")
    case True
    with Cons a show ?thesis by simp
  next
    case False
    with Cons.prems a have "e \<in> set (fst (read_files dec d fs p))
       \<or> (\<exists>p'. e \<in> set (fst (read_dirs dec ds p')))"
      by (auto simp: read_dirs_Cons simp del: read_dirs.simps split: sum.splits)
    then show ?thesis using read_files_out Cons.IH by blast
  qed
qed

lemma read_files_error: "snd (read_files dec pre fs p) = Inl e \<Longrightarrow> e = ZlibError"
proof (induction fs arbitrary: p)
  case Nil
  then show ?case by simp
next
  case (Cons a fs)
  obtain f c where a: "a = (f, c)" by (cases a)
  from Cons.prems a show ?case
    by (auto simp: read_files_Cons simp del: read_files.simps split: option.splits
             dest: Cons.IH)
qed

lemma read_files_fails:
  "(f, c) \<in> set fs \<Longrightarrow> dec c = None \<Longrightarrow> snd (read_files dec pre fs p) = Inl ZlibError"
proof (induction fs arbitrary: p)
  case Nil
  then show ?case by simp
next
  case (Cons a fs)
  obtain f' c' where a: "a = (f', c')" by (cases a)
  show ?case
  proof (cases "dec c'")
    case None
    with a show ?thesis by simp
  next
    case (Some x)
    with Cons.prems a have "(f, c) \<in> set fs" by auto
    then have "\<And>p. snd (read_files dec pre fs p) = Inl ZlibError"
      using Cons.IH Cons.prems(2) by blast
    with a Some show ?thesis by (simp add: read_files_Cons del: read_files.simps)
  qed
qed

lemma read_dirs_fails:
  "(d, fs) \<in> set ds \<Longrightarrow> d \<notin> set ignore_dirs \<Longrightarrow> (f, c) \<in> set fs \<Longrightarrow> dec c = None \<Longrightarrow>
     snd (read_dirs dec ds p) = Inl ZlibError"
proof (induction ds arbitrary: p)
  case Nil
  then show ?case by simp
next
  case (Cons a ds)
  obtain d' fs' where a: "a = (d', fs')" by (cases a)
  show ?case
  proof (cases "d' \<in> set ignore_dirs")
    case True
    with Cons.prems a have "(d, fs) \<in> set ds" by auto
    with Cons True a show ?thesis by simp
  next
    case False
    show ?thesis
    proof (cases "snd (read_files dec d' fs' p)")
      case (Inl e)
      with read_files_error [of dec d' fs' p e] have "snd (read_files dec d' fs' p) = Inl ZlibError"
        by simp
      with a False show ?thesis by (simp add: read_dirs_Cons del: read_dirs.simps)
    next
      case (Inr p')
      have "(d, fs) \<noteq> (d', fs')"
      proof
        assume "(d, fs) = (d', fs')"
        with Cons.prems(3,4) have "snd (read_files dec d' fs' p) = Inl ZlibError"
          using read_files_fails by blast
        with Inr show False by simp
      qed
      with Cons.prems a have "(d, fs) \<in> set ds" by auto
      then have "snd (read_dirs dec ds p') = Inl ZlibError"
        using Cons.IH Cons.prems by blast
      with Inr a False show ?thesis by (simp add: read_dirs_Cons del: read_dirs.simps)
    qed
  qed
qed

section \<open>A record that cannot be decompressed\<close>

text \<open>
  C4 (as amended).  When the bytes of a file in a directory that is not ignored fail to
  decompress, the exception is not caught: the run ends with \<^verbatim>\<open>zlib.error\<close>, what
  it has printed is what reading the objects printed (unknown-file lines only, neither
  the summary nor the table), and the files after the failing one are not read.
\<close>

theorem decode_failure_aborts_run:
  assumes "(d, fs) \<in> set objdir" and "d \<notin> set ignore_dirs"
    and "(f, c) \<in> set fs" and "decompress c = None"
  shows "snd (main decompress objdir) = Inl ZlibError
       \<and> fst (main decompress objdir) = fst (read_dirs decompress objdir init)
       \<and> (\<forall>e \<in> set (fst (main decompress objdir)).
             \<exists>h s. e = print [''*** UNKNOWN FILE: '', h, '' *** '', s])
       \<and> (\<forall>pre rest parser.
             read_files decompress pre ((f, c) # rest) parser = ([], Inl ZlibError))"
proof -
  have r: "snd (read_dirs decompress objdir init) = Inl ZlibError"
    using assms by (rule read_dirs_fails)
  then have m: "main decompress objdir = (fst (read_dirs decompress objdir init), Inl ZlibError)"
    by (cases "read_dirs decompress objdir init") (simp add: main_def)
  then show ?thesis
    using read_dirs_out [of _ decompress objdir init] assms(4) by auto
qed

theorem decode_failure_counterexample:
  "main ex_decompress ex_corrupt = ([], Inl ZlibError)"
  by code_simp

theorem decode_failure_aborts_run_witness:
  "(''ab'', [(''cd'', []), (''ef'', ''junk'')]) \<in> set ex_corrupt
   \<and> ''ab'' \<notin> set ignore_dirs
   \<and> ex_decompress [] = None
   \<and> snd (main ex_decompress ex_corrupt) = Inl ZlibError
   \<and> fst (main ex_decompress ex_corrupt) = fst (read_dirs ex_decompress ex_corrupt init)"
proof -
  have a: "(''ab'', [(''cd'', []), (''ef'', ''junk'')]) \<in> set ex_corrupt"
    by (simp add: ex_corrupt_def)
  have b: "''ab'' \<notin> set ignore_dirs" by (simp add: ignore_dirs_def)
  have c: "(''cd'', []) \<in> set [(''cd'', []), (''ef'', ''junk'')]" by simp
  have d: "ex_decompress [] = None" by (simp add: ex_decompress_def)
  show ?thesis
    using decode_failure_aborts_run
      [of "''ab''" "[(''cd'', []), (''ef'', ''junk'')]" ex_corrupt "''cd''" "[]" ex_decompress,
       OF a b c d] a b d
    by simp
qed

lemma main_out:
  assumes e: "e \<in> set (fst (main decompress objdir))"
  shows "fst e = Stdout"
proof (cases "snd (read_dirs decompress objdir init)")
  case (Inl err)
  then have "main decompress objdir = (fst (read_dirs decompress objdir init), Inl err)"
    by (cases "read_dirs decompress objdir init") (simp add: main_def)
  with e read_dirs_out [of e decompress objdir init] show ?thesis by auto
next
  case (Inr parser)
  then have rd: "read_dirs decompress objdir init
      = (fst (read_dirs decompress objdir init), Inr parser)"
    by (cases "read_dirs decompress objdir init") simp
  from e have "e \<in> set (fst (read_dirs decompress objdir init))
     \<or> e = print [''Total blobs '', str_nat (length (blobs parser)),
                '' -- total trees '', str_nat (length (trees parser)),
                '' -- total commits '', str_nat (length (commits parser))]
     \<or> e = print [tablePrefix]
     \<or> e \<in> set (fst (orderedCommits parser))
     \<or> (\<exists>c. e = print [str_Commit c])"
    unfolding main_def by (subst (asm) rd) (auto simp: bnd_Inr dest!: in_out_bnd)
  then show ?thesis
    using read_dirs_out [of e decompress objdir init] orderedCommits_out [of e parser] by auto
qed

section \<open>Where the diagnostics go\<close>

text \<open>
  C9 (as amended).  Everything the run prints, diagnostics as well as the summary, the
  header and the rows, is written to standard output.  Each diagnostic names the hash it
  is about: the unknown-file line the hash of the record, the lines of
  \<open>blobForCommit\<close> the commit being resolved, the lines of \<open>buildOrderedCommit\<close>
  the commit or its parent.
\<close>

theorem diagnostics_on_stdout:
  "(\<forall>e \<in> set (fst (main decompress objdir)). fst e = Stdout)
   \<and> (\<forall>e \<in> set (fst (parseObject self h contents)). fst e = Stdout \<and> sublist h (snd e))
   \<and> (\<forall>e \<in> set (fst (blobForCommit self h)). fst e = Stdout \<and> sublist h (snd e))
   \<and> (\<forall>e \<in> set (fst (buildOrderedCommit self h)). fst e = Stdout
         \<and> (sublist h (snd e)
            \<or> (\<exists>c p. map_of (commits self) h = Some c \<and> parent_id c = Some p
                  \<and> sublist p (snd e))))"
proof -
  have 1: "\<forall>e \<in> set (fst (main decompress objdir)). fst e = Stdout"
    using main_out by blast
  have 2: "\<forall>e \<in> set (fst (parseObject self h contents)). fst e = Stdout \<and> sublist h (snd e)"
  proof
    fix e assume "e \<in> set (fst (parseObject self h contents))"
    then have "e = print [''*** UNKNOWN FILE: '', h, '' *** '',
                          butlast (drop 2 (str_bytes contents))]"
      by (rule parseObject_out)
    then show "fst e = Stdout \<and> sublist h (snd e)" by (simp add: sublist_print)
  qed
  have 3: "\<forall>e \<in> set (fst (blobForCommit self h)). fst e = Stdout \<and> sublist h (snd e)"
    using blobForCommit_out by blast
  have 4: "\<forall>e \<in> set (fst (buildOrderedCommit self h)). fst e = Stdout
         \<and> (sublist h (snd e)
            \<or> (\<exists>c p. map_of (commits self) h = Some c \<and> parent_id c = Some p
                  \<and> sublist p (snd e)))"
    using buildOrderedCommit_out by blast
  from 1 2 3 4 show ?thesis by blast
qed

theorem diagnostics_same_stream_counterexample:
  "fst (main ex_decompress ex_junk) =
     [(Stdout, ''*** UNKNOWN FILE:  abcd  ***  junk'' @ [LF]),
      (Stdout, ''Total blobs  0  -- total trees  0  -- total commits  0'' @ [LF]),
      (Stdout, tablePrefix @ [LF])]"
  by code_simp

theorem diagnostics_on_stdout_witness:
  "fst (main ex_decompress ex_junk) \<noteq> []
   \<and> fst (hd (fst (main ex_decompress ex_junk))) = Stdout
   \<and> fst (parseObject init ''abcd'' ''junk'') \<noteq> []
   \<and> fst (hd (fst (parseObject init ''abcd'' ''junk''))) = Stdout
   \<and> sublist ''abcd'' (snd (hd (fst (parseObject init ''abcd'' ''junk''))))
   \<and> fst (blobForCommit ex_no_blob ''c1'') \<noteq> []
   \<and> fst (hd (fst (blobForCommit ex_no_blob ''c1''))) = Stdout
   \<and> sublist ''c1'' (snd (hd (fst (blobForCommit ex_no_blob ''c1''))))
   \<and> fst (buildOrderedCommit ex_dangling ''c2'') \<noteq> []
   \<and> fst (hd (fst (buildOrderedCommit ex_dangling ''c2''))) = Stdout
   \<and> sublist ''c2'' (snd (hd (fst (buildOrderedCommit ex_dangling ''c2''))))"
proof -
  note t = diagnostics_on_stdout [of ex_decompress ex_junk init "''abcd''" "''junk''"]
  note u = diagnostics_on_stdout [of ex_decompress ex_junk ex_no_blob "''c1''" "''junk''"]
  note v = diagnostics_on_stdout [of ex_decompress ex_junk ex_dangling "''c2''" "''junk''"]
  have m: "fst (main ex_decompress ex_junk) \<noteq> []" by code_simp
  have n: "fst (parseObject init ''abcd'' ''junk'') \<noteq> []" by code_simp
  have b: "fst (blobForCommit ex_no_blob ''c1'') \<noteq> []" by code_simp
  have c: "fst (buildOrderedCommit ex_dangling ''c2'') =
     [print [''Commit '', ''c2'', '' has unknown parent '', ''c1'']]" by code_simp
  have c1: "sublist ''c2'' (snd (print [''Commit '', ''c2'', '' has unknown parent '', ''c1'']))"
    by (simp add: sublist_print)
  from m have "hd (fst (main ex_decompress ex_junk)) \<in> set (fst (main ex_decompress ex_junk))"
    by simp
  with t have 1: "fst (hd (fst (main ex_decompress ex_junk))) = Stdout" by blast
  from n have "hd (fst (parseObject init ''abcd'' ''junk''))
      \<in> set (fst (parseObject init ''abcd'' ''junk''))" by simp
  with t have 2: "fst (hd (fst (parseObject init ''abcd'' ''junk''))) = Stdout
      \<and> sublist ''abcd'' (snd (hd (fst (parseObject init ''abcd'' ''junk''))))" by blast
  from b have "hd (fst (blobForCommit ex_no_blob ''c1''))
      \<in> set (fst (blobForCommit ex_no_blob ''c1''))" by simp
  with u have 3: "fst (hd (fst (blobForCommit ex_no_blob ''c1''))) = Stdout
      \<and> sublist ''c1'' (snd (hd (fst (blobForCommit ex_no_blob ''c1''))))" by blast
  from c have "hd (fst (buildOrderedCommit ex_dangling ''c2''))
      \<in> set (fst (buildOrderedCommit ex_dangling ''c2''))" by simp
  with v have "fst (hd (fst (buildOrderedCommit ex_dangling ''c2''))) = Stdout" by blast
  with c c1 have 4: "fst (buildOrderedCommit ex_dangling ''c2'') \<noteq> []
      \<and> fst (hd (fst (buildOrderedCommit ex_dangling ''c2''))) = Stdout
      \<and> sublist ''c2'' (snd (hd (fst (buildOrderedCommit ex_dangling ''c2''))))" by simp
  from m n b 1 2 3 4 show ?thesis by blast
qed

section \<open>Resolving the blob of a commit\<close>

lemma startswith_refl [simp]: "startswith s s"
  by (simp add: startswith_def)

lemma snd_bnd_Inl: "snd m = Inl e \<Longrightarrow> snd (bnd m f) = Inl e"
  by (cases m) (simp add: bnd_def)

lemma map_result_fails:
  "x \<in> set xs \<Longrightarrow> snd (f x) = Inl e \<Longrightarrow> \<exists>e'. snd (map_result f xs) = Inl e'"
proof (induction xs)
  case Nil
  then show ?case by simp
next
  case (Cons y ys)
  show ?case
  proof (cases "snd (f y)")
    case (Inl e1)
    then show ?thesis by (cases "f y") simp
  next
    case (Inr v)
    with Cons.prems have "x \<in> set ys" by auto
    then obtain e' where "snd (map_result f ys) = Inl e'" using Cons by blast
    with Inr show ?thesis
      by (cases "f y"; cases "map_result f ys") simp
  qed
qed

lemma orderedCommits_fails:
  assumes "map_of (commits self) h = Some commit" and "snd (buildOrderedCommit self h) = Inl e"
  shows "\<exists>e'. snd (orderedCommits self) = Inl e'"
proof -
  from assms(1) have "h \<in> set (keys (commits self))"
    by (force simp: keys_def dest: map_of_SomeD)
  with assms(2) obtain e' where
    "snd (map_result (buildOrderedCommit self) (keys (commits self))) = Inl e'"
    using map_result_fails [of h "keys (commits self)" "buildOrderedCommit self" e] by auto
  then show ?thesis by (auto simp: orderedCommits_def snd_bnd_Inl)
qed

lemma scan_blobs_none:
  "\<forall>b \<in> set ks. \<not> startswith b bid \<Longrightarrow> scan_blobs bid h tid ks full = ([], full)"
  by (induction ks arbitrary: full) auto

lemma blobForCommit_found:
  assumes "map_of (commits self) h = Some commit" and "tree_id commit = Some t"
    and "map_of (trees self) t = Some tree"
  shows "blobForCommit self h =
     (if \<not> has_key (blobs self) (blobId tree) then
         (case scan_blobs (blobId tree) h (Some t) (keys (blobs self)) (blobId tree) of
            (o1, full_id) \<Rightarrow>
              (o1 @ (if \<not> has_key (blobs self) full_id
                       then [print [''ERROR: Blob '', full_id, '' not found (ref. commit '', h,
                                    '' - tree '', t, '')'']]
                       else []),
               snd (dict_get (blobs self) (Some full_id))))
       else dict_get (blobs self) (Some (blobId tree)))"
  using assms
  by (simp add: blobForCommit_def dict_get_Some bnd_Inr Let_def str_opt_def split: prod.splits)

lemma not_has_key_map_of: "\<not> has_key d k \<Longrightarrow> map_of d k = None"
  by (simp add: has_key_def keys_def map_of_eq_None_iff)

lemma has_key_map_of: "has_key d k \<Longrightarrow> \<exists>v. map_of d k = Some v"
  by (cases "map_of d k") (auto simp: has_key_def keys_def map_of_eq_None_iff)

lemma buildOrderedCommit_found:
  assumes "map_of (commits self) h = Some commit"
  shows "buildOrderedCommit self h =
     bnd ((case parent_id commit of
             None \<Rightarrow> []
           | Some pid \<Rightarrow>
               if \<not> has_key (commits self) pid
               then [print [''Commit '', h, '' has unknown parent '', pid]] else [])
          @ (if (case tree_id commit of
                   None \<Rightarrow> True | Some t \<Rightarrow> \<not> has_key (trees self) t)
             then [print [''Commit '', h, '' has unknown tree '', str_opt (tree_id commit)]]
             else []), Inr ()) (\<lambda>_.
     bnd (blobForCommit self h) (\<lambda>blob.
     bnd (case parent_id commit of
            None \<Rightarrow> ([], Inr None)
          | Some pid \<Rightarrow>
              bnd (blobForCommit self pid) (\<lambda>parent_blob. ([], Inr (commit_order parent_blob))))
       (\<lambda>original_parent_order.
     bnd ([], py_int (commit_order blob)) (\<lambda>n.
       ([], Inr \<lparr>hash = h, order = n,
                 original_parent_hash = parent_id commit,
                 original_parent_order = original_parent_order,
                 row_author_time = author_time commit,
                 row_commit_time = commit_time commit\<rparr>)))))"
  using assms by (simp add: buildOrderedCommit_def dict_get_Some bnd_Inr)

text \<open>
  C1 (as amended).  When the commit and its tree are stored and no key of the blob
  dictionary starts with the identifier taken from the tree, \<open>blobForCommit\<close> prints
  one error line naming the identifier, the commit and the tree and then raises
  \<^verbatim>\<open>KeyError\<close> for the identifier: no row is built for the commit and
  \<open>orderedCommits\<close> ends with an exception.
\<close>

theorem blobForCommit_no_match:
  assumes "map_of (commits self) h = Some commit" and "tree_id commit = Some t"
    and "map_of (trees self) t = Some tree"
    and "\<forall>b \<in> set (keys (blobs self)). \<not> startswith b (blobId tree)"
  shows "blobForCommit self h =
           ([print [''ERROR: Blob '', blobId tree, '' not found (ref. commit '', h,
                    '' - tree '', t, '')'']],
            Inl (KeyError (Some (blobId tree))))
       \<and> snd (buildOrderedCommit self h) = Inl (KeyError (Some (blobId tree)))
       \<and> print [''ERROR: Blob '', blobId tree, '' not found (ref. commit '', h,
                 '' - tree '', t, '')''] \<in> set (fst (buildOrderedCommit self h))
       \<and> (\<exists>e. snd (orderedCommits self) = Inl e)"
proof -
  have nk: "\<not> has_key (blobs self) (blobId tree)"
    using assms(4) by (auto simp: has_key_def)
  have b: "blobForCommit self h =
           ([print [''ERROR: Blob '', blobId tree, '' not found (ref. commit '', h,
                    '' - tree '', t, '')'']],
            Inl (KeyError (Some (blobId tree))))"
    using nk assms(4)
    by (simp add: blobForCommit_found [OF assms(1-3)] scan_blobs_none dict_get_None
                  not_has_key_map_of)
  have s: "snd (buildOrderedCommit self h) = Inl (KeyError (Some (blobId tree)))"
    by (simp add: buildOrderedCommit_found [OF assms(1)] bnd_Inr b)
  have o: "print [''ERROR: Blob '', blobId tree, '' not found (ref. commit '', h,
                 '' - tree '', t, '')''] \<in> set (fst (buildOrderedCommit self h))"
    by (simp add: buildOrderedCommit_found [OF assms(1)] bnd_Inr b)
  from b s o orderedCommits_fails [OF assms(1) s] show ?thesis by blast
qed

theorem unresolved_blob_counterexample:
  "orderedCommits ex_no_blob =
     ([print [''ERROR: Blob '', ex_blob_key (CHR ''1''), '' not found (ref. commit '', ''c1'',
              '' - tree '', ''a1'', '')'']],
      Inl (KeyError (Some (ex_blob_key (CHR ''1'')))))"
  by code_simp

theorem blobForCommit_no_match_witness:
  "map_of (commits ex_no_blob) ''c1'' = Some (ex_commit_rec ''a1'' None)
   \<and> map_of (trees ex_no_blob) ''a1'' = Some (ex_tree_rec (CHR ''1''))
   \<and> keys (blobs ex_no_blob) = []
   \<and> snd (buildOrderedCommit ex_no_blob ''c1'')
       = Inl (KeyError (Some (blobId (ex_tree_rec (CHR ''1'')))))
   \<and> (\<exists>e. snd (orderedCommits ex_no_blob) = Inl e)"
proof -
  have 1: "map_of (commits ex_no_blob) ''c1'' = Some (ex_commit_rec ''a1'' None)"
    by (simp add: ex_no_blob_def)
  have 2: "tree_id (ex_commit_rec ''a1'' None) = Some ''a1''"
    by (simp add: ex_commit_rec_def)
  have 3: "map_of (trees ex_no_blob) ''a1'' = Some (ex_tree_rec (CHR ''1''))"
    by (simp add: ex_no_blob_def)
  have k: "keys (blobs ex_no_blob) = []"
    by (simp add: ex_no_blob_def keys_def)
  then have 4: "\<forall>b \<in> set (keys (blobs ex_no_blob)).
                  \<not> startswith b (blobId (ex_tree_rec (CHR ''1'')))"
    by simp
  show ?thesis
    using blobForCommit_no_match [OF 1 2 3 4] 1 3 k by simp
qed

text \<open>
  C2 (as amended).  When a commit names a parent that is not in the commit dictionary,
  \<open>buildOrderedCommit\<close> prints the unknown-parent line and then ends with an
  exception; when the commit's own blob resolves, the exception is the
  \<^verbatim>\<open>KeyError\<close> of looking the parent up.  No row is built and
  \<open>orderedCommits\<close> ends with an exception.
\<close>

theorem dangling_parent_aborts:
  assumes "map_of (commits self) h = Some commit" and "parent_id commit = Some pid"
    and "\<not> has_key (commits self) pid"
  shows "print [''Commit '', h, '' has unknown parent '', pid]
           \<in> set (fst (buildOrderedCommit self h))
       \<and> (\<exists>e. snd (buildOrderedCommit self h) = Inl e)
       \<and> (\<forall>o1 blob. blobForCommit self h = (o1, Inr blob)
             \<longrightarrow> snd (buildOrderedCommit self h) = Inl (KeyError (Some pid)))
       \<and> (\<exists>e. snd (orderedCommits self) = Inl e)"
proof -
  have p: "blobForCommit self pid = ([], Inl (KeyError (Some pid)))"
    using assms(3) by (simp add: blobForCommit_def dict_get_None not_has_key_map_of)
  have o: "print [''Commit '', h, '' has unknown parent '', pid]
           \<in> set (fst (buildOrderedCommit self h))"
    using assms(2,3) by (simp add: buildOrderedCommit_found [OF assms(1)] bnd_Inr)
  have r: "\<forall>o1 blob. blobForCommit self h = (o1, Inr blob)
             \<longrightarrow> snd (buildOrderedCommit self h) = Inl (KeyError (Some pid))"
    using assms(2) by (simp add: buildOrderedCommit_found [OF assms(1)] bnd_Inr p)
  have f: "\<exists>e. snd (buildOrderedCommit self h) = Inl e"
  proof (cases "snd (blobForCommit self h)")
    case (Inl e)
    then show ?thesis
      by (simp add: buildOrderedCommit_found [OF assms(1)] bnd_Inr snd_bnd_Inl)
  next
    case (Inr blob)
    then have "blobForCommit self h = (fst (blobForCommit self h), Inr blob)"
      by (cases "blobForCommit self h") simp
    with r show ?thesis by blast
  qed
  from f obtain e where "snd (buildOrderedCommit self h) = Inl e" by blast
  from o f r orderedCommits_fails [OF assms(1) this] show ?thesis by blast
qed

theorem dangling_parent_counterexample:
  "orderedCommits ex_dangling =
     ([print [''Commit '', ''c2'', '' has unknown parent '', ''c1'']],
      Inl (KeyError (Some ''c1'')))"
  by code_simp

theorem dangling_parent_aborts_witness:
  "map_of (commits ex_dangling) ''c2'' = Some (ex_commit_rec ''a2'' (Some ''c1''))
   \<and> \<not> has_key (commits ex_dangling) ''c1''
   \<and> blobForCommit ex_dangling ''c2'' = ([], Inr (ex_blob_rec ''2''))
   \<and> snd (buildOrderedCommit ex_dangling ''c2'') = Inl (KeyError (Some ''c1''))
   \<and> (\<exists>e. snd (orderedCommits ex_dangling) = Inl e)"
proof -
  have 1: "map_of (commits ex_dangling) ''c2'' = Some (ex_commit_rec ''a2'' (Some ''c1''))"
    by (simp add: ex_dangling_def)
  have 2: "parent_id (ex_commit_rec ''a2'' (Some ''c1'')) = Some ''c1''"
    by (simp add: ex_commit_rec_def)
  have 3: "\<not> has_key (commits ex_dangling) ''c1''"
    by (simp add: ex_dangling_def has_key_def keys_def)
  have 4: "blobForCommit ex_dangling ''c2'' = ([], Inr (ex_blob_rec ''2''))"
    by code_simp
  show ?thesis
    using dangling_parent_aborts [OF 1 2 3] 1 3 4 by simp
qed

lemma scan_blobs_from:
  "bid \<notin> set ks \<Longrightarrow> full \<noteq> bid \<Longrightarrow>
   scan_blobs bid h tid ks full =
     (map (\<lambda>(a, b). print [''ERROR: Got ambiguous short blob ID '', bid,
                            '' not found (ref. commit '', h, '' - tree '', str_opt tid,
                            '') which matches '', a, '' and '', b])
          (zip (full # filter (\<lambda>b. startswith b bid) ks) (filter (\<lambda>b. startswith b bid) ks)),
      last (full # filter (\<lambda>b. startswith b bid) ks))"
proof (induction ks arbitrary: full)
  case Nil
  then show ?case by simp
next
  case (Cons b ks)
  from Cons.prems have nb: "b \<noteq> bid" and nks: "bid \<notin> set ks" by auto
  show ?case
  proof (cases "startswith b bid")
    case True
    with Cons.prems Cons.IH [OF nks nb] show ?thesis by (simp add: Let_def)
  next
    case False
    with Cons.prems Cons.IH [OF nks Cons.prems(2)] show ?thesis by simp
  qed
qed

lemma scan_blobs_init:
  "bid \<notin> set ks \<Longrightarrow>
   scan_blobs bid h tid ks bid =
     (map (\<lambda>(a, b). print [''ERROR: Got ambiguous short blob ID '', bid,
                            '' not found (ref. commit '', h, '' - tree '', str_opt tid,
                            '') which matches '', a, '' and '', b])
          (zip (filter (\<lambda>b. startswith b bid) ks) (tl (filter (\<lambda>b. startswith b bid) ks))),
      if filter (\<lambda>b. startswith b bid) ks = [] then bid
      else last (filter (\<lambda>b. startswith b bid) ks))"
proof (induction ks)
  case Nil
  then show ?case by simp
next
  case (Cons b ks)
  from Cons.prems have nb: "b \<noteq> bid" and nks: "bid \<notin> set ks" by auto
  show ?case
  proof (cases "startswith b bid")
    case True
    with scan_blobs_from [OF nks nb, of h tid] show ?thesis by (simp add: Let_def)
  next
    case False
    with Cons.IH [OF nks] show ?thesis by simp
  qed
qed

lemma adjacent_pairs_cover:
  assumes "2 \<le> length cs" and "c \<in> set cs"
  shows "\<exists>p \<in> set (zip cs (tl cs)). c = fst p \<or> c = snd p"
proof -
  from assms(2) obtain i where i: "i < length cs" and c: "cs ! i = c"
    by (auto simp: in_set_conv_nth)
  show ?thesis
  proof (cases "Suc i < length cs")
    case True
    then have "(cs ! i, tl cs ! i) \<in> set (zip cs (tl cs))"
      by (auto simp: set_zip)
    with c show ?thesis by force
  next
    case False
    with i assms(1) obtain j where j: "i = Suc j" by (cases i) auto
    with i have "(cs ! j, tl cs ! j) \<in> set (zip cs (tl cs))"
      by (auto simp: set_zip)
    moreover have "tl cs ! j = c" using c j i by (simp add: nth_tl)
    ultimately show ?thesis by force
  qed
qed

text \<open>
  C3 (as amended).  When the identifier taken from the tree is no key of the blob
  dictionary and one or more keys start with it, \<open>blobForCommit\<close> returns the blob
  of the last such key in dictionary order, and prints one ambiguity line for each
  candidate after the first, naming the candidate kept so far and the new one; with two
  or more candidates every candidate is named in some line.
\<close>

theorem ambiguous_prefix_last_wins:
  assumes "map_of (commits self) h = Some commit" and "tree_id commit = Some t"
    and "map_of (trees self) t = Some tree"
    and "\<not> has_key (blobs self) (blobId tree)"
    and "filter (\<lambda>b. startswith b (blobId tree)) (keys (blobs self)) = cands"
    and "cands \<noteq> []"
  shows "(\<exists>blob. map_of (blobs self) (last cands) = Some blob
           \<and> blobForCommit self h =
               (map (\<lambda>(a, b). print [''ERROR: Got ambiguous short blob ID '', blobId tree,
                                      '' not found (ref. commit '', h, '' - tree '', t,
                                      '') which matches '', a, '' and '', b])
                    (zip cands (tl cands)),
                Inr blob))
       \<and> (2 \<le> length cands \<longrightarrow>
             (\<forall>c \<in> set cands. \<exists>e \<in> set (fst (blobForCommit self h)). sublist c (snd e)))"
proof -
  let ?amb = "\<lambda>(a, b). print [''ERROR: Got ambiguous short blob ID '', blobId tree,
                                      '' not found (ref. commit '', h, '' - tree '', t,
                                      '') which matches '', a, '' and '', b]"
  have nk: "blobId tree \<notin> set (keys (blobs self))"
    using assms(4) by (simp add: has_key_def)
  have "last cands \<in> set cands" using assms(6) by simp
  then have "last cands \<in> set (keys (blobs self))"
    using assms(5) by auto
  then have hk: "has_key (blobs self) (last cands)" by (simp add: has_key_def)
  then obtain blob where blob: "map_of (blobs self) (last cands) = Some blob"
    using has_key_map_of by blast
  have sc: "scan_blobs (blobId tree) h (Some t) (keys (blobs self)) (blobId tree)
          = (map ?amb (zip cands (tl cands)), last cands)"
    using scan_blobs_init [OF nk, of h "Some t"] assms(5,6) by (simp add: str_opt_def)
  have b: "blobForCommit self h = (map ?amb (zip cands (tl cands)), Inr blob)"
    using assms(4) hk blob
    by (simp add: blobForCommit_found [OF assms(1-3)] sc dict_get_Some)
  have named: "\<exists>e \<in> set (fst (blobForCommit self h)). sublist c (snd e)"
    if len: "2 \<le> length cands" and c: "c \<in> set cands" for c
  proof -
    from adjacent_pairs_cover [OF len c] obtain p where
      p: "p \<in> set (zip cands (tl cands))" and cp: "c = fst p \<or> c = snd p" by blast
    have "?amb p \<in> set (fst (blobForCommit self h))" using p b by simp
    moreover have "sublist c (snd (?amb p))"
      using cp by (cases p) (auto simp: sublist_print)
    ultimately show ?thesis by blast
  qed
  from blob b named show ?thesis by blast
qed

theorem ambiguous_prefix_counterexample:
  "filter (\<lambda>b. startswith b (blobId (ex_tree_rec (CHR ''1'')))) (keys (blobs ex_ambiguous))
     = [ex_blob_key (CHR ''1'') @ ''a'', ex_blob_key (CHR ''1'') @ ''b'']
   \<and> map_of (blobs ex_ambiguous) (ex_blob_key (CHR ''1'') @ ''a'') = Some (ex_blob_rec ''1'')
   \<and> snd (blobForCommit ex_ambiguous ''c1'') = Inr (ex_blob_rec ''2'')
   \<and> ex_blob_rec ''2'' \<noteq> ex_blob_rec ''1''"
  by code_simp

theorem ambiguous_prefix_last_wins_witness:
  "map_of (commits ex_ambiguous) ''c1'' = Some (ex_commit_rec ''a1'' None)
   \<and> map_of (trees ex_ambiguous) ''a1'' = Some (ex_tree_rec (CHR ''1''))
   \<and> \<not> has_key (blobs ex_ambiguous) (blobId (ex_tree_rec (CHR ''1'')))
   \<and> filter (\<lambda>b. startswith b (blobId (ex_tree_rec (CHR ''1'')))) (keys (blobs ex_ambiguous))
       = [ex_blob_key (CHR ''1'') @ ''a'', ex_blob_key (CHR ''1'') @ ''b'']
   \<and> blobForCommit ex_ambiguous ''c1'' =
       ([print [''ERROR: Got ambiguous short blob ID '', blobId (ex_tree_rec (CHR ''1'')),
                '' not found (ref. commit '', ''c1'', '' - tree '', ''a1'',
                '') which matches '', ex_blob_key (CHR ''1'') @ ''a'', '' and '',
                ex_blob_key (CHR ''1'') @ ''b'']],
        Inr (ex_blob_rec ''2''))"
proof -
  have 1: "map_of (commits ex_ambiguous) ''c1'' = Some (ex_commit_rec ''a1'' None)"
    by (simp add: ex_ambiguous_def)
  have 2: "tree_id (ex_commit_rec ''a1'' None) = Some ''a1''"
    by (simp add: ex_commit_rec_def)
  have 3: "map_of (trees ex_ambiguous) ''a1'' = Some (ex_tree_rec (CHR ''1''))"
    by (simp add: ex_ambiguous_def)
  have 4: "\<not> has_key (blobs ex_ambiguous) (blobId (ex_tree_rec (CHR ''1'')))"
    by code_simp
  have 5: "filter (\<lambda>b. startswith b (blobId (ex_tree_rec (CHR ''1'')))) (keys (blobs ex_ambiguous))
       = [ex_blob_key (CHR ''1'') @ ''a'', ex_blob_key (CHR ''1'') @ ''b'']"
    by code_simp
  have 6: "[ex_blob_key (CHR ''1'') @ ''a'', ex_blob_key (CHR ''1'') @ ''b''] \<noteq> []"
    by simp
  have 7: "map_of (blobs ex_ambiguous) (ex_blob_key (CHR ''1'') @ ''b'') = Some (ex_blob_rec ''2'')"
    by code_simp
  show ?thesis
    using ambiguous_prefix_last_wins [OF 1 2 3 4 5 6] 1 3 4 5 7 by simp
qed

section \<open>Matching the patterns\<close>

lemma first_match_Nil [simp]: "first_match [] = None"
  by (simp add: first_match_def)

lemma first_match_Cons [simp]: "first_match ((i, s, c) # xs) = Some c"
  by (simp add: first_match_def)

lemma first_match_append:
  "first_match (xs @ ys) = (case first_match xs of Some m \<Rightarrow> Some m | None \<Rightarrow> first_match ys)"
  by (cases xs) (auto simp: first_match_def)

lemma concat_map_Nil: "(\<And>x. x \<in> set xs \<Longrightarrow> f x = []) \<Longrightarrow> concat (map f xs) = []"
  by (induction xs) auto

lemma search_Bol: "search (Bol # r) s = first_match (ms r (0, s, Map.empty))"
proof -
  have u: "[0..<Suc (length s)] = 0 # [Suc 0..<Suc (length s)]"
    by (metis upt_rec zero_less_Suc)
  have tail: "concat (map (\<lambda>i. ms (Bol # r) (i, drop i s, Map.empty)) [Suc 0..<Suc (length s)]) = []"
    by (rule concat_map_Nil) auto
  have head: "ms (Bol # r) (0, drop 0 s, Map.empty) = ms r (0, s, Map.empty)"
    by simp
  show ?thesis
    unfolding search_def u list.map concat.simps tail head by simp
qed

subsection \<open>Running a pattern on a text\<close>

lemma ms_Bol: "ms (Bol # rs) (0, s, c) = ms rs (0, s, c)"
  by simp

lemma ms_Eol: "ms (Eol # rs) (i, [], c) = ms rs (i, [], c)"
  by simp

lemma ms_Lit_Nil: "ms (Lit [] # rs) (i, s, c) = ms rs (i, s, c)"
  by simp

lemma ms_Lit_Cons:
  "ms (Lit (x # l) # rs) (i, y # s, c) = (if x = y then ms (Lit l # rs) (Suc i, s, c) else [])"
  by simp

lemma ms_Lit_end: "ms (Lit (x # l) # rs) (i, [], c) = []"
  by simp

lemma ms_One: "ms (One P # rs) (i, y # s, c) = (if P y then ms rs (Suc i, s, c) else [])"
  by simp

lemma ms_Grp_fail: "ms body (i, s, c) = [] \<Longrightarrow> ms (Grp g body # rs) (i, s, c) = []"
  by simp

lemma ms_Opt_skip: "ms body st = [] \<Longrightarrow> ms (Opt body # rs) st = ms rs st"
  by simp

lemma ms_Nil_fun: "ms [] = (\<lambda>st. [st])"
  by (rule ext) simp

lemma ms_Grp_single:
  "ms (Grp g [r] # rs) (i, s, c) =
     concat (map (\<lambda>(i', s', c'). ms rs (i', s', c'(g \<mapsto> take (i' - i) s))) (m1 r (i, s, c)))"
  by (simp add: ms_Nil_fun comp_def case_prod_unfold)

lemma m1_Plus:
  "m1 (Plus P) (i, s, c) =
     map (\<lambda>j. (i + j, drop j s, c)) (rev [1..<Suc (length (takeWhile P s))])"
  by simp

lemma ms_GrpPlus:
  "ms (Grp g [Plus P] # rs) (i, s, c) =
     concat (map (\<lambda>j. ms rs (i + j, drop j s, c(g \<mapsto> take j s)))
                 (rev [1..<Suc (length (takeWhile P s))]))"
  unfolding ms_Grp_single m1_Plus by (simp add: comp_def del: upt_Suc)

lemma takeWhile_run: "\<forall>x \<in> set xs. P x \<Longrightarrow> \<not> P y \<Longrightarrow> takeWhile P (xs @ y # s) = xs"
  by simp

lemma fm_GrpPlus_exact:
  assumes "xs \<noteq> []" and "\<forall>x \<in> set xs. P x" and "\<not> P y"
  shows "first_match (ms (Grp g [Plus P] # rs) (i, xs @ y # s, c)) =
     (case first_match (ms rs (i + length xs, y # s, c(g \<mapsto> xs))) of
        Some m \<Rightarrow> Some m
      | None \<Rightarrow> first_match (concat (map (\<lambda>j. ms rs (i + j, drop j (xs @ y # s),
                                                  c(g \<mapsto> take j (xs @ y # s))))
                                   (rev [1..<length xs]))))"
proof -
  have r: "rev [1..<Suc (length xs)] = length xs # rev [1..<length xs]"
    using assms(1) by (cases xs) auto
  have e: "ms (Grp g [Plus P] # rs) (i, xs @ y # s, c) =
      ms rs (i + length xs, drop (length xs) (xs @ y # s),
             c(g \<mapsto> take (length xs) (xs @ y # s)))
      @ concat (map (\<lambda>j. ms rs (i + j, drop j (xs @ y # s), c(g \<mapsto> take j (xs @ y # s))))
                    (rev [1..<length xs]))"
    unfolding ms_GrpPlus takeWhile_run [OF assms(2,3)] r by (simp only: list.map concat.simps)
  have h: "ms rs (i + length xs, drop (length xs) (xs @ y # s),
             c(g \<mapsto> take (length xs) (xs @ y # s)))
         = ms rs (i + length xs, y # s, c(g \<mapsto> xs))"
    by simp
  show ?thesis
    unfolding e h first_match_append by (rule refl)
qed

lemma fm_GrpPlus_back:
  assumes "xs \<noteq> []" and "\<forall>x \<in> set xs. P x" and "P y" and "\<not> P z"
  shows "first_match (ms (Grp g [Plus P] # rs) (i, xs @ y # z # s, c)) =
     (case first_match (ms rs (Suc (i + length xs), z # s, c(g \<mapsto> xs @ [y]))) of
        Some m \<Rightarrow> Some m
      | None \<Rightarrow>
       (case first_match (ms rs (i + length xs, y # z # s, c(g \<mapsto> xs))) of
          Some m \<Rightarrow> Some m
        | None \<Rightarrow> first_match (concat (map (\<lambda>j. ms rs (i + j, drop j (xs @ y # z # s),
                                                  c(g \<mapsto> take j (xs @ y # z # s))))
                                   (rev [1..<length xs])))))"
proof -
  have t: "takeWhile P (xs @ y # z # s) = xs @ [y]"
    using takeWhile_run [of "xs @ [y]" P z s] assms by simp
  have r: "rev [1..<Suc (length (xs @ [y]))] = Suc (length xs) # length xs # rev [1..<length xs]"
    using assms(1) by (cases xs) auto
  have e: "ms (Grp g [Plus P] # rs) (i, xs @ y # z # s, c) =
      ms rs (i + Suc (length xs), drop (Suc (length xs)) (xs @ y # z # s),
             c(g \<mapsto> take (Suc (length xs)) (xs @ y # z # s)))
      @ ms rs (i + length xs, drop (length xs) (xs @ y # z # s),
             c(g \<mapsto> take (length xs) (xs @ y # z # s)))
      @ concat (map (\<lambda>j. ms rs (i + j, drop j (xs @ y # z # s),
                                 c(g \<mapsto> take j (xs @ y # z # s))))
                    (rev [1..<length xs]))"
    unfolding ms_GrpPlus t r by (simp only: list.map concat.simps)
  have h1: "ms rs (i + Suc (length xs), drop (Suc (length xs)) (xs @ y # z # s),
             c(g \<mapsto> take (Suc (length xs)) (xs @ y # z # s)))
         = ms rs (Suc (i + length xs), z # s, c(g \<mapsto> xs @ [y]))"
    by simp
  have h2: "ms rs (i + length xs, drop (length xs) (xs @ y # z # s),
             c(g \<mapsto> take (length xs) (xs @ y # z # s)))
         = ms rs (i + length xs, y # z # s, c(g \<mapsto> xs))"
    by simp
  show ?thesis
    unfolding e h1 h2 first_match_append by (rule refl)
qed

lemma fm_Nil: "first_match (ms [] (i, s, c)) = Some c"
  by simp

lemma class_facts:
  "\<not> is_digit bslash" "\<not> is_hex bslash" "\<not> is_digit (CHR '' '')"
  "is_name (CHR '' '')" "\<not> is_name (CHR ''<'')"
  by (simp_all add: is_digit_def is_hex_def is_name_def)

lemmas pattern_defs = blob_re_def commit_re_def tree_re_def prefix_re_def tree_capture_def
  parent_capture_def author_capture_def committer_capture_def suffix_re_def
  capture_number_def capture_hash_def capture_time_def capture_name_def
  separator_def newline_def

lemmas ms_rules = fm_Nil ms_Bol ms_Eol ms_Lit_Nil ms_Lit_Cons ms_Lit_end ms_One ms_Grp_fail
  ms_Opt_skip fm_GrpPlus_exact fm_GrpPlus_back

lemma search_commit_root:
  assumes "n \<noteq> []" "\<forall>x \<in> set n. is_digit x"
    and "t \<noteq> []" "\<forall>x \<in> set t. is_hex x"
    and "a \<noteq> []" "\<forall>x \<in> set a. is_name x"
    and "at \<noteq> []" "\<forall>x \<in> set at. is_digit x"
    and "cm \<noteq> []" "\<forall>x \<in> set cm. is_name x"
    and "ct \<noteq> []" "\<forall>x \<in> set ct. is_digit x"
  shows "search commit_re
     (''commit '' @ n @ bslash # ''x00tree '' @ t @ bslash # ''nauthor '' @ a @ '' <> '' @ at
      @ '' +0000'' @ bslash # ''ncommitter '' @ cm @ '' <> '' @ ct @ '' +0000''
      @ bslash # ''n'' @ bslash # ''ncommit'' @ bslash # ''n'')
     = Some (Map.empty(1 \<mapsto> n, 2 \<mapsto> t, 5 \<mapsto> a, 6 \<mapsto> at, 7 \<mapsto> cm, 8 \<mapsto> ct))"
  using assms
  by (simp add: pattern_defs search_Bol ms_rules class_facts del: ms.simps m1.simps)

subsection \<open>The text of the bytes of a commit\<close>

lemma body_text:
  "butlast (drop 2 (str_bytes bs)) = concat (map (esc_byte (quote_of bs)) bs)"
proof -
  have "drop 2 (CHR ''b'' # q # xs) = xs" for q :: char and xs
    by simp
  then show ?thesis
    unfolding str_bytes_def Let_def append_Cons append_Nil by (simp only: butlast_snoc)
qed

lemma esc_digit: "is_digit x \<Longrightarrow> esc_byte squote x = [x]"
  unfolding is_digit_def by (elim disjE | simp)+ (simp_all add: esc_byte_def)

lemma esc_hex: "is_hex x \<Longrightarrow> esc_byte squote x = [x]"
  unfolding is_hex_def by (elim disjE | simp)+ (simp_all add: esc_byte_def)

lemma esc_name: "is_name x \<Longrightarrow> esc_byte squote x = [x]"
  unfolding is_name_def by (elim disjE | simp)+ (simp_all add: esc_byte_def)

lemma esc_run: "\<forall>x \<in> set xs. esc_byte q x = [x] \<Longrightarrow> concat (map (esc_byte q) xs) = xs"
  by (induction xs) auto

lemma not_squote: "is_digit squote = False" "is_hex squote = False" "is_name squote = False"
  by (simp_all add: is_digit_def is_hex_def is_name_def)

lemma no_squote:
  "\<forall>x \<in> set xs. is_digit x \<Longrightarrow> squote \<notin> set xs"
  "\<forall>x \<in> set ys. is_hex x \<Longrightarrow> squote \<notin> set ys"
  "\<forall>x \<in> set zs. is_name x \<Longrightarrow> squote \<notin> set zs"
  using not_squote by blast+

lemma esc_runs:
  "\<forall>x \<in> set xs. is_digit x \<Longrightarrow> concat (map (esc_byte squote) xs) = xs"
  "\<forall>x \<in> set ys. is_hex x \<Longrightarrow> concat (map (esc_byte squote) ys) = ys"
  "\<forall>x \<in> set zs. is_name x \<Longrightarrow> concat (map (esc_byte squote) zs) = zs"
  by (simp_all add: esc_run esc_digit esc_hex esc_name)

lemma esc_literal:
  "esc_byte squote NUL = bslash # ''x00''"
  "esc_byte squote LF = bslash # ''n''"
  by (simp_all add: esc_byte_def hex_byte_def hexdigit_def)

lemma esc_lit_chars:
  "c \<in> set ''commit tree author <> +0000'' \<Longrightarrow> esc_byte squote c = [c]"
  by (elim disjE | simp)+ (simp_all add: esc_byte_def)

lemma root_commit_text:
  assumes "\<forall>x \<in> set n. is_digit x" "\<forall>x \<in> set t. is_hex x" "\<forall>x \<in> set a. is_name x"
    "\<forall>x \<in> set at. is_digit x" "\<forall>x \<in> set cm. is_name x" "\<forall>x \<in> set ct. is_digit x"
  shows "butlast (drop 2 (str_bytes
     (''commit '' @ n @ [NUL] @ ''tree '' @ t @ [LF] @ ''author '' @ a @ '' <> '' @ at
      @ '' +0000'' @ [LF] @ ''committer '' @ cm @ '' <> '' @ ct @ '' +0000''
      @ [LF, LF] @ ''commit'' @ [LF])))
   = ''commit '' @ n @ bslash # ''x00tree '' @ t @ bslash # ''nauthor '' @ a @ '' <> '' @ at
      @ '' +0000'' @ bslash # ''ncommitter '' @ cm @ '' <> '' @ ct @ '' +0000''
      @ bslash # ''n'' @ bslash # ''ncommit'' @ bslash # ''n''"
proof -
  have q: "quote_of (''commit '' @ n @ [NUL] @ ''tree '' @ t @ [LF] @ ''author '' @ a @ '' <> '' @ at
      @ '' +0000'' @ [LF] @ ''committer '' @ cm @ '' <> '' @ ct @ '' +0000''
      @ [LF, LF] @ ''commit'' @ [LF]) = squote"
    using assms by (simp add: quote_of_def no_squote)
  show ?thesis
    unfolding body_text q using assms
    by (simp add: esc_runs esc_literal esc_lit_chars)
qed

lemma search_blob_commit_text: "search blob_re (''commit '' @ s) = None"
  by (simp add: pattern_defs search_Bol ms_rules del: ms.simps m1.simps)

section \<open>A commit without a parent\<close>

lemma blobForCommit_Inr_tree:
  assumes "map_of (commits st) h = Some commit" and "blobForCommit st h = (o1, Inr blob)"
  shows "\<exists>t. tree_id commit = Some t \<and> has_key (trees st) t"
proof (cases "tree_id commit")
  case None
  with assms show ?thesis
    by (simp add: blobForCommit_def dict_get_Some bnd_Inr dict_get_def)
next
  case (Some t)
  show ?thesis
  proof (cases "map_of (trees st) t")
    case None
    with assms Some show ?thesis
      by (simp add: blobForCommit_def dict_get_Some bnd_Inr dict_get_None)
  next
    case (Some tree)
    then have "has_key (trees st) t"
      by (force simp: has_key_def keys_def dest: map_of_SomeD)
    with \<open>tree_id commit = Some t\<close> show ?thesis by blast
  qed
qed

lemma buildOrderedCommit_root_out:
  assumes "map_of (commits st) h = Some commit" and "parent_id commit = None"
  shows "fst (buildOrderedCommit st h) =
     (if (case tree_id commit of None \<Rightarrow> True | Some t \<Rightarrow> \<not> has_key (trees st) t)
      then [print [''Commit '', h, '' has unknown tree '', str_opt (tree_id commit)]]
      else []) @ fst (blobForCommit st h)"
  using assms(2)
  by (simp add: buildOrderedCommit_found [OF assms(1)] bnd_Inr fst_bnd split: sum.splits)

lemma buildOrderedCommit_root_row:
  assumes "map_of (commits st) h = Some commit" and "parent_id commit = None"
    and "buildOrderedCommit st h = (out, Inr row)"
  shows "original_parent_hash row = None \<and> original_parent_order row = None"
  using assms(2,3)
  by (auto simp: buildOrderedCommit_found [OF assms(1)] bnd_eq_Inr)

lemma buildOrderedCommit_root_value:
  assumes "map_of (commits st) h = Some commit" and "parent_id commit = None"
    and "blobForCommit st h = (o1, Inr blob)" and "py_int (commit_order blob) = Inr k"
  shows "buildOrderedCommit st h =
     (o1, Inr \<lparr>hash = h, order = k, original_parent_hash = None,
               original_parent_order = None, row_author_time = author_time commit,
               row_commit_time = commit_time commit\<rparr>)"
proof -
  from blobForCommit_Inr_tree [OF assms(1,3)] obtain t where
    "tree_id commit = Some t" "has_key (trees st) t" by blast
  with assms(2-4) show ?thesis
    by (simp add: buildOrderedCommit_found [OF assms(1)] bnd_Inr)
qed

lemma parse_root_commit:
  assumes "n \<noteq> []" "\<forall>x \<in> set n. is_digit x"
    and "t \<noteq> []" "\<forall>x \<in> set t. is_hex x"
    and "a \<noteq> []" "\<forall>x \<in> set a. is_name x"
    and "at \<noteq> []" "\<forall>x \<in> set at. is_digit x"
    and "cm \<noteq> []" "\<forall>x \<in> set cm. is_name x"
    and "ct \<noteq> []" "\<forall>x \<in> set ct. is_digit x"
  shows "parseObject self h
           (''commit '' @ n @ [NUL] @ ''tree '' @ t @ [LF] @ ''author '' @ a @ '' <> '' @ at
            @ '' +0000'' @ [LF] @ ''committer '' @ cm @ '' <> '' @ ct @ '' +0000''
            @ [LF, LF] @ ''commit'' @ [LF])
         = ([], self\<lparr>commits := dict_set h
               \<lparr>commit_num = Some n, tree_id = Some t, parent_id = None, author = Some a,
                author_time = Some at, committer = Some cm, commit_time = Some ct\<rparr>
               (commits self)\<rparr>)"
proof -
  let ?B = "''commit '' @ n @ [NUL] @ ''tree '' @ t @ [LF] @ ''author '' @ a @ '' <> '' @ at
            @ '' +0000'' @ [LF] @ ''committer '' @ cm @ '' <> '' @ ct @ '' +0000''
            @ [LF, LF] @ ''commit'' @ [LF]"
  let ?T = "''commit '' @ n @ bslash # ''x00tree '' @ t @ bslash # ''nauthor '' @ a @ '' <> '' @ at
      @ '' +0000'' @ bslash # ''ncommitter '' @ cm @ '' <> '' @ ct @ '' +0000''
      @ bslash # ''n'' @ bslash # ''ncommit'' @ bslash # ''n''"
  have tx: "butlast (drop 2 (str_bytes ?B)) = ?T"
    using assms by (intro root_commit_text) auto
  have b: "search blob_re ?T = None"
    by (rule search_blob_commit_text)
  have c: "search commit_re ?T
     = Some (Map.empty(1 \<mapsto> n, 2 \<mapsto> t, 5 \<mapsto> a, 6 \<mapsto> at, 7 \<mapsto> cm, 8 \<mapsto> ct))"
    using assms by (rule search_commit_root)
  show ?thesis
    using parseObject_cases [of ?B self h] unfolding tx b c by simp
qed

text \<open>
  C8.  A commit record with no parent line (a size, a tree hash, an author and a
  committer with their times, in the shape the commit pattern asks for) is accepted by
  \<open>parseObject\<close>: it is stored as a commit whose \<open>parent_id\<close> is \<^verbatim>\<open>None\<close>
  and nothing is printed.  For such a commit \<open>buildOrderedCommit\<close> prints what
  resolving its own tree and blob prints and nothing about a parent, every row it returns
  has no parent hash and no parent order, and it returns that row whenever the commit's
  own blob resolves to an order.
\<close>

theorem root_commit_accepted:
  assumes "n \<noteq> []" "\<forall>x \<in> set n. is_digit x"
    and "t \<noteq> []" "\<forall>x \<in> set t. is_hex x"
    and "a \<noteq> []" "\<forall>x \<in> set a. is_name x"
    and "at \<noteq> []" "\<forall>x \<in> set at. is_digit x"
    and "cm \<noteq> []" "\<forall>x \<in> set cm. is_name x"
    and "ct \<noteq> []" "\<forall>x \<in> set ct. is_digit x"
  shows "parseObject self h
           (''commit '' @ n @ [NUL] @ ''tree '' @ t @ [LF] @ ''author '' @ a @ '' <> '' @ at
            @ '' +0000'' @ [LF] @ ''committer '' @ cm @ '' <> '' @ ct @ '' +0000''
            @ [LF, LF] @ ''commit'' @ [LF])
         = ([], self\<lparr>commits := dict_set h
               \<lparr>commit_num = Some n, tree_id = Some t, parent_id = None, author = Some a,
                author_time = Some at, committer = Some cm, commit_time = Some ct\<rparr>
               (commits self)\<rparr>)
       \<and> (\<forall>st. map_of (commits st) h =
                  Some \<lparr>commit_num = Some n, tree_id = Some t, parent_id = None,
                        author = Some a, author_time = Some at, committer = Some cm,
                        commit_time = Some ct\<rparr> \<longrightarrow>
             fst (buildOrderedCommit st h) =
               (if \<not> has_key (trees st) t
                then [print [''Commit '', h, '' has unknown tree '', t]] else [])
               @ fst (blobForCommit st h)
           \<and> (\<forall>out row. buildOrderedCommit st h = (out, Inr row) \<longrightarrow>
                 original_parent_hash row = None \<and> original_parent_order row = None)
           \<and> (\<forall>o1 blob k. blobForCommit st h = (o1, Inr blob)
                             \<and> py_int (commit_order blob) = Inr k \<longrightarrow>
                 buildOrderedCommit st h =
                   (o1, Inr \<lparr>hash = h, order = k, original_parent_hash = None,
                             original_parent_order = None, row_author_time = Some at,
                             row_commit_time = Some ct\<rparr>)))"
proof -
  let ?B = "''commit '' @ n @ [NUL] @ ''tree '' @ t @ [LF] @ ''author '' @ a @ '' <> '' @ at
            @ '' +0000'' @ [LF] @ ''committer '' @ cm @ '' <> '' @ ct @ '' +0000''
            @ [LF, LF] @ ''commit'' @ [LF]"
  let ?R = "\<lparr>commit_num = Some n, tree_id = Some t, parent_id = None,
                        author = Some a, author_time = Some at, committer = Some cm,
                        commit_time = Some ct\<rparr>"
  have p: "parseObject self h ?B = ([], self\<lparr>commits := dict_set h ?R (commits self)\<rparr>)"
    using assms by (rule parse_root_commit)
  have r: "fst (buildOrderedCommit st h) =
               (if \<not> has_key (trees st) t
                then [print [''Commit '', h, '' has unknown tree '', t]] else [])
               @ fst (blobForCommit st h)
           \<and> (\<forall>out row. buildOrderedCommit st h = (out, Inr row) \<longrightarrow>
                 original_parent_hash row = None \<and> original_parent_order row = None)
           \<and> (\<forall>o1 blob k. blobForCommit st h = (o1, Inr blob)
                             \<and> py_int (commit_order blob) = Inr k \<longrightarrow>
                 buildOrderedCommit st h =
                   (o1, Inr \<lparr>hash = h, order = k, original_parent_hash = None,
                             original_parent_order = None, row_author_time = Some at,
                             row_commit_time = Some ct\<rparr>))"
    if m: "map_of (commits st) h = Some ?R" for st
  proof -
    have pn: "parent_id ?R = None" by simp
    have 1: "fst (buildOrderedCommit st h) =
               (if \<not> has_key (trees st) t
                then [print [''Commit '', h, '' has unknown tree '', t]] else [])
               @ fst (blobForCommit st h)"
      using buildOrderedCommit_root_out [OF m pn] by (simp add: str_opt_def)
    have 2: "\<forall>out row. buildOrderedCommit st h = (out, Inr row) \<longrightarrow>
                 original_parent_hash row = None \<and> original_parent_order row = None"
      using buildOrderedCommit_root_row [OF m pn] by blast
    have 3: "\<forall>o1 blob k. blobForCommit st h = (o1, Inr blob)
                             \<and> py_int (commit_order blob) = Inr k \<longrightarrow>
                 buildOrderedCommit st h =
                   (o1, Inr \<lparr>hash = h, order = k, original_parent_hash = None,
                             original_parent_order = None, row_author_time = Some at,
                             row_commit_time = Some ct\<rparr>)"
      using buildOrderedCommit_root_value [OF m pn] by auto
    from 1 2 3 show ?thesis by blast
  qed
  from p r show ?thesis by blast
qed

theorem root_commit_accepted_witness:
  "parseObject init ''c1'' (ex_commit ''a1'' []) =
     ([], init\<lparr>commits := [(''c1'', ex_commit_rec ''a1'' None)]\<rparr>)
   \<and> map_of (commits ex_store) ''c1'' = Some (ex_commit_rec ''a1'' None)
   \<and> blobForCommit ex_store ''c1'' = ([], Inr (ex_blob_rec ''1''))
   \<and> buildOrderedCommit ex_store ''c1'' = ([], Inr ex_row1)"
proof -
  have d: "''99'' \<noteq> []" "\<forall>x \<in> set ''99''. is_digit x"
    "''a1'' \<noteq> []" "\<forall>x \<in> set ''a1''. is_hex x"
    "''Ben Bitdiddle'' \<noteq> []" "\<forall>x \<in> set ''Ben Bitdiddle''. is_name x"
    "''1366331681'' \<noteq> []" "\<forall>x \<in> set ''1366331681''. is_digit x"
    "''1366331682'' \<noteq> []" "\<forall>x \<in> set ''1366331682''. is_digit x"
    by (simp_all add: is_digit_def is_hex_def is_name_def)
  have m: "map_of (commits ex_store) ''c1'' = Some (ex_commit_rec ''a1'' None)"
    by (simp add: ex_store_def)
  have b: "blobForCommit ex_store ''c1'' = ([], Inr (ex_blob_rec ''1''))"
    by code_simp
  have k: "py_int (commit_order (ex_blob_rec ''1'')) = Inr 1"
    by code_simp
  note w = root_commit_accepted [OF d(1,2,3,4,5,6,7,8,5,6,9,10), of init "''c1''"]
  from w have p: "parseObject init ''c1'' (ex_commit ''a1'' []) =
     ([], init\<lparr>commits := [(''c1'', ex_commit_rec ''a1'' None)]\<rparr>)"
    by (simp add: ex_commit_def ex_commit_rec_def init_def)
  from w m b k have "buildOrderedCommit ex_store ''c1'' = ([], Inr ex_row1)"
    by (simp add: ex_commit_rec_def ex_row1_def)
  with p m b show ?thesis by simp
qed

section \<open>What a match says about the text\<close>

lemma first_match_SomeD: "first_match xs = Some m \<Longrightarrow> \<exists>i s. (i, s, m) \<in> set xs"
  by (cases xs) (auto simp: first_match_def)

lemma caps_preserved:
  "\<forall>i' s' c'. (i', s', c') \<in> set (m1 r st) \<longrightarrow> g \<notin> grps r \<longrightarrow> c' g = snd (snd st) g"
  "\<forall>i' s' c'. (i', s', c') \<in> set (ms rs st) \<longrightarrow> g \<notin> grps_list rs \<longrightarrow> c' g = snd (snd st) g"
proof (induction r st and rs st rule: m1_ms.induct)
  case (7 n body i s c)
  then show ?case by auto
next
  case (10 r rs st)
  show ?case
  proof (intro allI impI)
    fix i' s' c'
    assume a: "(i', s', c') \<in> set (ms (r # rs) st)" and g: "g \<notin> grps_list (r # rs)"
    from a obtain y where y: "y \<in> set (m1 r st)" and x: "(i', s', c') \<in> set (ms rs y)"
      by auto
    obtain yi ys yc where yy: "y = (yi, ys, yc)" by (cases y)
    from 10(1) y yy g have "yc g = snd (snd st) g" by auto
    moreover from 10(2) [OF y] x g have "c' g = snd (snd y) g" by auto
    ultimately show "c' g = snd (snd st) g" using yy by simp
  qed
qed (auto split: if_splits list.splits)

lemma ms_caps_preserved:
  "(i', s', c') \<in> set (ms rs (i, s, c)) \<Longrightarrow> g \<notin> grps_list rs \<Longrightarrow> c' g = c g"
  using caps_preserved(2) [of rs "(i, s, c)" g] by auto

lemma in_ms_Lit:
  "x \<in> set (ms (Lit l # rs) (i, s, c)) \<longleftrightarrow>
     (\<exists>r. s = l @ r \<and> x \<in> set (ms rs (i + length l, r, c)))"
proof
  assume a: "x \<in> set (ms (Lit l # rs) (i, s, c))"
  then have t: "take (length l) s = l" by (auto split: if_splits)
  then have "s = l @ drop (length l) s" by (metis append_take_drop_id)
  with a t show "\<exists>r. s = l @ r \<and> x \<in> set (ms rs (i + length l, r, c))" by auto
next
  assume "\<exists>r. s = l @ r \<and> x \<in> set (ms rs (i + length l, r, c))"
  then show "x \<in> set (ms (Lit l # rs) (i, s, c))" by auto
qed

lemma in_ms_GrpPlus:
  assumes "x \<in> set (ms (Grp g [Plus P] # rs) (i, s, c))"
  shows "\<exists>n r. s = n @ r \<and> n \<noteq> [] \<and> (\<forall>y \<in> set n. P y)
           \<and> x \<in> set (ms rs (i + length n, r, c(g \<mapsto> n)))"
proof -
  from assms obtain j where j: "1 \<le> j" "j \<le> length (takeWhile P s)"
    and x: "x \<in> set (ms rs (i + j, drop j s, c(g \<mapsto> take j s)))"
    unfolding ms_GrpPlus by auto
  have le: "j \<le> length s" using j(2) length_takeWhile_le [of P s] by linarith
  have "take j s = take j (takeWhile P s)"
    using j(2) by (metis takeWhile_eq_take min.absorb1 take_take)
  then have "set (take j s) \<subseteq> set (takeWhile P s)"
    by (metis set_take_subset)
  then have p: "\<forall>y \<in> set (take j s). P y"
    by (auto dest: set_takeWhileD)
  have ne: "take j s \<noteq> []" using j(1) le by auto
  have len: "length (take j s) = j" using le by simp
  have "s = take j s @ drop j s" by simp
  with ne p x len show ?thesis by metis
qed

lemma in_ms_Star:
  assumes "x \<in> set (ms (Star P # rs) (i, s, c))"
  shows "\<exists>pre r. s = pre @ r \<and> x \<in> set (ms rs (i + length pre, r, c))"
proof -
  from assms obtain j where j': "j < Suc (length (takeWhile P s))"
    and x: "x \<in> set (ms rs (i + j, drop j s, c))"
    by (auto simp del: upt_Suc)
  from j' have j: "j \<le> length (takeWhile P s)" by simp
  have le: "j \<le> length s" using j length_takeWhile_le [of P s] by linarith
  have "s = take j s @ drop j s" by simp
  moreover have "length (take j s) = j" using le by simp
  ultimately show ?thesis using x by metis
qed

lemma header_sound:
  assumes "x \<in> set (ms (Lit kw # Grp 1 [Plus is_digit] # Lit sep # tail) (i, s, c))"
    and "1 \<notin> grps_list tail"
  shows "\<exists>n r j. s = kw @ n @ sep @ r \<and> n \<noteq> [] \<and> (\<forall>y \<in> set n. is_digit y)
           \<and> snd (snd x) 1 = Some n \<and> x \<in> set (ms tail (j, r, c(1 \<mapsto> n)))"
proof -
  from assms(1) obtain r1 where s1: "s = kw @ r1"
    and x1: "x \<in> set (ms (Grp 1 [Plus is_digit] # Lit sep # tail) (i + length kw, r1, c))"
    unfolding in_ms_Lit by blast
  from in_ms_GrpPlus [OF x1] obtain n r2 where s2: "r1 = n @ r2" and n: "n \<noteq> []"
    "\<forall>y \<in> set n. is_digit y"
    and x2: "x \<in> set (ms (Lit sep # tail) (i + length kw + length n, r2, c(1 \<mapsto> n)))"
    by blast
  from x2 obtain r3 where s3: "r2 = sep @ r3"
    and x3: "x \<in> set (ms tail (i + length kw + length n + length sep, r3, c(1 \<mapsto> n)))"
    unfolding in_ms_Lit by blast
  obtain i' s' c' where xx: "x = (i', s', c')" by (cases x)
  from ms_caps_preserved [OF x3 [unfolded xx] assms(2)] have "c' 1 = Some n" by simp
  with s1 s2 s3 n x3 xx show ?thesis by auto
qed

lemma blob_re_header:
  "blob_re = Bol # Lit ''blob '' # Grp 1 [Plus is_digit] # Lit (bslash # ''x00'')
     # [Lit ''This is the README in the '', Grp 2 [Plus is_digit], One is_word, One is_word,
        Lit '' commit'', One is_any, Eol]"
  by (simp add: pattern_defs)

lemma commit_re_header:
  "commit_re = Bol # Lit ''commit '' # Grp 1 [Plus is_digit] # Lit (bslash # ''x00'')
     # (tree_capture @ parent_capture @ author_capture @ committer_capture @ suffix_re)"
  by (simp add: commit_re_def prefix_re_def capture_number_def separator_def)

lemma tree_re_header:
  "tree_re = Bol # Star is_any # Lit ''tree '' # Grp 1 [Plus is_digit] # Lit (bslash # ''x00'')
     # [Lit ''100644 README'', Lit ''.txt'', Grp 2 [Star is_any], Eol]"
  by (simp add: tree_re_def separator_def)

lemma blob_size_text:
  assumes "search blob_re s = Some m"
  shows "\<exists>n r. s = ''blob '' @ n @ bslash # ''x00'' @ r \<and> n \<noteq> []
           \<and> (\<forall>y \<in> set n. is_digit y) \<and> m 1 = Some n"
proof -
  from assms obtain i' s' where
    "(i', s', m) \<in> set (ms (Lit ''blob '' # Grp 1 [Plus is_digit] # Lit (bslash # ''x00'')
       # [Lit ''This is the README in the '', Grp 2 [Plus is_digit], One is_word, One is_word,
          Lit '' commit'', One is_any, Eol]) (0, s, Map.empty))"
    unfolding blob_re_header search_Bol by (blast dest: first_match_SomeD)
  from header_sound [OF this] show ?thesis by auto
qed

lemma commit_size_text:
  assumes "search commit_re s = Some m"
  shows "\<exists>n r. s = ''commit '' @ n @ bslash # ''x00'' @ r \<and> n \<noteq> []
           \<and> (\<forall>y \<in> set n. is_digit y) \<and> m 1 = Some n"
proof -
  from assms obtain i' s' where
    "(i', s', m) \<in> set (ms (Lit ''commit '' # Grp 1 [Plus is_digit] # Lit (bslash # ''x00'')
       # (tree_capture @ parent_capture @ author_capture @ committer_capture @ suffix_re))
       (0, s, Map.empty))"
    unfolding commit_re_header search_Bol by (blast dest: first_match_SomeD)
  then have x: "(i', s', m) \<in> set (ms (Lit ''commit '' # Grp 1 [Plus is_digit]
       # Lit (bslash # ''x00'')
       # (tree_capture @ parent_capture @ author_capture @ committer_capture @ suffix_re))
       (0, s, Map.empty))" .
  have g: "1 \<notin> grps_list
     (tree_capture @ parent_capture @ author_capture @ committer_capture @ suffix_re)"
    by (simp add: pattern_defs)
  from header_sound [OF x g] show ?thesis by auto
qed

lemma tree_size_text:
  assumes "search tree_re s = Some m"
  shows "\<exists>pre n r. s = pre @ ''tree '' @ n @ bslash # ''x00100644 README.txt'' @ r \<and> n \<noteq> []
           \<and> (\<forall>y \<in> set n. is_digit y) \<and> m 1 = Some n"
proof -
  from assms obtain i' s' where
    "(i', s', m) \<in> set (ms (Star is_any # Lit ''tree '' # Grp 1 [Plus is_digit]
       # Lit (bslash # ''x00'')
       # [Lit ''100644 README'', Lit ''.txt'', Grp 2 [Star is_any], Eol]) (0, s, Map.empty))"
    unfolding tree_re_header search_Bol by (blast dest: first_match_SomeD)
  from in_ms_Star [OF this] obtain pre r0 where s0: "s = pre @ r0"
    and x0: "(i', s', m) \<in> set (ms (Lit ''tree '' # Grp 1 [Plus is_digit]
       # Lit (bslash # ''x00'')
       # [Lit ''100644 README'', Lit ''.txt'', Grp 2 [Star is_any], Eol])
       (0 + length pre, r0, Map.empty))"
    by blast
  have g: "1 \<notin> grps_list [Lit ''100644 README'', Lit ''.txt'', Grp 2 [Star is_any], Eol]"
    by simp
  from header_sound [OF x0 g] obtain n r j where
    s1: "r0 = ''tree '' @ n @ (bslash # ''x00'') @ r" and n: "n \<noteq> []" "\<forall>y \<in> set n. is_digit y"
    and m: "m 1 = Some n"
    and x1: "(i', s', m) \<in> set (ms [Lit ''100644 README'', Lit ''.txt'', Grp 2 [Star is_any], Eol]
               (j, r, Map.empty(1 \<mapsto> n)))"
    by auto
  from x1 obtain r2 where s2: "r = ''100644 README'' @ r2"
    and x2: "(i', s', m) \<in> set (ms [Lit ''.txt'', Grp 2 [Star is_any], Eol]
               (j + length ''100644 README'', r2, Map.empty(1 \<mapsto> n)))"
    unfolding in_ms_Lit by blast
  from x2 obtain r3 where s3: "r2 = ''.txt'' @ r3"
    unfolding in_ms_Lit by blast
  from s0 s1 s2 s3 have "s = pre @ ''tree '' @ n @ bslash # ''x00100644 README.txt'' @ r3"
    by simp
  with n m show ?thesis by blast
qed

subsection \<open>From the text back to the bytes\<close>

lemma esc_byte_cases:
  "esc_byte q b = [b] \<and> b \<noteq> bslash
   \<or> esc_byte q b = [bslash, b] \<and> (b = q \<or> b = bslash)
   \<or> esc_byte q b = [bslash, CHR ''t'']
   \<or> esc_byte q b = [bslash, CHR ''n'']
   \<or> esc_byte q b = [bslash, CHR ''r'']
   \<or> esc_byte q b = [bslash, CHR ''x''] @ hex_byte b"
  by (simp add: esc_byte_def)

lemma esc_inv_char:
  assumes "concat (map (esc_byte q) bs) = c # r" and "c \<noteq> bslash"
  shows "\<exists>bs'. bs = c # bs' \<and> concat (map (esc_byte q) bs') = r"
proof (cases bs)
  case Nil
  with assms show ?thesis by simp
next
  case (Cons b bs')
  with assms(1) have e: "esc_byte q b @ concat (map (esc_byte q) bs') = c # r" by simp
  from esc_byte_cases [of q b] e assms(2) have "esc_byte q b = [b]"
    by (elim disjE conjE) auto
  with e Cons show ?thesis by simp
qed

lemma esc_inv_plain:
  "concat (map (esc_byte q) bs) = p @ r \<Longrightarrow> bslash \<notin> set p \<Longrightarrow>
     \<exists>bs'. bs = p @ bs' \<and> concat (map (esc_byte q) bs') = r"
proof (induction p arbitrary: bs)
  case Nil
  then show ?case by simp
next
  case (Cons c p)
  from Cons.prems have "concat (map (esc_byte q) bs) = c # (p @ r)" "c \<noteq> bslash" by auto
  from esc_inv_char [OF this] obtain bs1 where
    b1: "bs = c # bs1" and e1: "concat (map (esc_byte q) bs1) = p @ r" by blast
  from Cons.IH [OF e1] Cons.prems(2) obtain bs' where
    "bs1 = p @ bs'" "concat (map (esc_byte q) bs') = r" by auto
  with b1 show ?case by simp
qed

lemma hexdigit_nonzero: "list_all (\<lambda>k. hexdigit k \<noteq> CHR ''0'') [1..<16]"
  by code_simp

lemma hexdigit_zero:
  assumes "n < 16" and "hexdigit n = CHR ''0''"
  shows "n = 0"
proof (rule ccontr)
  assume "n \<noteq> 0"
  with assms(1) have "n \<in> set [1..<16]" by simp
  moreover have "\<forall>k \<in> set [1..<16]. hexdigit k \<noteq> CHR ''0''"
    using hexdigit_nonzero by (simp only: list_all_iff)
  ultimately show False using assms(2) by blast
qed

lemma hex_byte_zero:
  assumes "hex_byte b = ''00''"
  shows "b = NUL"
proof -
  have lt: "(of_char b :: nat) < 256" by simp
  from assms have h1: "hexdigit ((of_char b :: nat) div 16) = CHR ''0''"
    and h2: "hexdigit (of_char b :: nat) = CHR ''0''"
    by (simp_all add: hex_byte_def)
  from lt have "(of_char b :: nat) div 16 < 16" by (simp add: less_mult_imp_div_less)
  from hexdigit_zero [OF this h1] have d: "(of_char b :: nat) div 16 = 0" .
  then have "(of_char b :: nat) < 16" by simp
  from hexdigit_zero [OF this h2] have "(of_char b :: nat) = of_char NUL" by simp
  then show ?thesis by (simp only: of_char_eq_iff)
qed

lemma esc_inv_nul:
  assumes "concat (map (esc_byte q) bs) = bslash # ''x00'' @ r" and "q \<noteq> CHR ''x''"
  shows "\<exists>bs'. bs = NUL # bs' \<and> concat (map (esc_byte q) bs') = r"
proof (cases bs)
  case Nil
  with assms show ?thesis by simp
next
  case (Cons b bs')
  with assms(1) have e: "esc_byte q b @ concat (map (esc_byte q) bs') = bslash # ''x00'' @ r"
    by simp
  from esc_byte_cases [of q b] e assms(2)
  have x: "esc_byte q b = [bslash, CHR ''x''] @ hex_byte b"
    by (elim disjE conjE) auto
  have "hex_byte b = ''00'' \<and> concat (map (esc_byte q) bs') = r"
    using e unfolding x by (simp add: hex_byte_def)
  with hex_byte_zero Cons show ?thesis by simp
qed

lemma quote_of_not_x: "quote_of bs \<noteq> CHR ''x''"
  by (simp add: quote_of_def)

lemma header_bytes:
  assumes "butlast (drop 2 (str_bytes contents)) = kw @ n @ bslash # ''x00'' @ r"
    and "bslash \<notin> set kw" and "\<forall>y \<in> set n. is_digit y"
  shows "\<exists>payload. contents = kw @ n @ NUL # payload"
proof -
  have nb: "bslash \<notin> set (kw @ n)"
    using assms(2,3) class_facts(1) by auto
  from assms(1) have "concat (map (esc_byte (quote_of contents)) contents)
      = (kw @ n) @ (bslash # ''x00'' @ r)"
    by (simp add: body_text)
  from esc_inv_plain [OF this nb] obtain bs1 where
    b1: "contents = (kw @ n) @ bs1"
    and e1: "concat (map (esc_byte (quote_of contents)) bs1) = bslash # ''x00'' @ r"
    by blast
  from esc_inv_nul [OF e1 quote_of_not_x] obtain bs2 where "bs1 = NUL # bs2" by blast
  with b1 show ?thesis by simp
qed

section \<open>Facts about the model\<close>

subsection \<open>The keys of the commit dictionary are distinct\<close>

lemma keys_dict_set: "set (keys (dict_set k v d)) = insert k (set (keys d))"
  by (induction d) (auto simp: keys_def)

lemma distinct_dict_set: "distinct (keys d) \<Longrightarrow> distinct (keys (dict_set k v d))"
proof (induction d)
  case Nil
  then show ?case by (simp add: keys_def)
next
  case (Cons p d)
  then have d: "distinct (keys d)" and n: "fst p \<notin> set (keys d)" by (auto simp: keys_def)
  show ?case
  proof (cases "fst p = k")
    case True
    with Cons.prems show ?thesis by (simp add: keys_def)
  next
    case False
    have "fst p \<notin> set (keys (dict_set k v d))"
      using n False by (simp add: keys_dict_set)
    with Cons.IH [OF d] False show ?thesis by (simp add: keys_def)
  qed
qed

lemma parseObject_distinct:
  assumes "distinct (keys (commits p))"
  shows "distinct (keys (commits (snd (parseObject p h c))))"
  using parseObject_cases [of c p h] assms
  by (elim disjE exE conjE) (simp_all add: distinct_dict_set)

lemma read_files_distinct:
  "read_files dec pre fs p = (out, Inr p') \<Longrightarrow> distinct (keys (commits p)) \<Longrightarrow>
     distinct (keys (commits p'))"
proof (induction fs arbitrary: p out)
  case Nil
  then show ?case by simp
next
  case (Cons a fs)
  obtain f c where a: "a = (f, c)" by (cases a)
  from Cons.prems(1) a obtain c' where c': "dec c = Some c'"
    by (cases "dec c") auto
  from Cons.prems(1) a c' have
    "snd (read_files dec pre fs (snd (parseObject p (pre @ f) c'))) = Inr p'"
    by (simp add: read_files_Cons del: read_files.simps)
  then have "read_files dec pre fs (snd (parseObject p (pre @ f) c'))
      = (fst (read_files dec pre fs (snd (parseObject p (pre @ f) c'))), Inr p')"
    by (cases "read_files dec pre fs (snd (parseObject p (pre @ f) c'))") simp
  from Cons.IH [OF this parseObject_distinct [OF Cons.prems(2)]] show ?case .
qed

lemma read_dirs_distinct:
  "read_dirs dec ds p = (out, Inr p') \<Longrightarrow> distinct (keys (commits p)) \<Longrightarrow>
     distinct (keys (commits p'))"
proof (induction ds arbitrary: p out)
  case Nil
  then show ?case by simp
next
  case (Cons a ds)
  obtain d fs where a: "a = (d, fs)" by (cases a)
  show ?case
  proof (cases "d \<in> set ignore_dirs")
    case True
    with Cons a show ?thesis by simp
  next
    case False
    from Cons.prems(1) a False obtain p1 where
      r1: "snd (read_files dec d fs p) = Inr p1"
      and r2: "snd (read_dirs dec ds p1) = Inr p'"
      by (cases "snd (read_files dec d fs p)")
         (auto simp: read_dirs_Cons simp del: read_dirs.simps)
    from r1 have "read_files dec d fs p = (fst (read_files dec d fs p), Inr p1)"
      by (cases "read_files dec d fs p") simp
    from read_files_distinct [OF this Cons.prems(2)] have d1: "distinct (keys (commits p1))" .
    from r2 have "read_dirs dec ds p1 = (fst (read_dirs dec ds p1), Inr p')"
      by (cases "read_dirs dec ds p1") simp
    from Cons.IH [OF this d1] show ?thesis .
  qed
qed

lemma read_dirs_init_distinct:
  "read_dirs dec ds init = (out, Inr p) \<Longrightarrow> distinct (keys (commits p))"
  by (erule read_dirs_distinct) (simp add: init_def keys_def)

subsection \<open>The text of a bytes value is printable ASCII\<close>

lemma hexdigit_printable: "list_all (\<lambda>k. hexdigit k \<in> set ''0123456789abcdef'') [0..<16]"
  by code_simp

lemma hexdigit_range: "hexdigit n \<in> set ''0123456789abcdef''"
proof -
  have "n mod 16 \<in> set [0..<16]" by simp
  moreover have "\<forall>k \<in> set [0..<16]. hexdigit k \<in> set ''0123456789abcdef''"
    using hexdigit_printable by (simp only: list_all_iff)
  ultimately have "hexdigit (n mod 16) \<in> set ''0123456789abcdef''" by blast
  then show ?thesis by (simp add: hexdigit_def)
qed

lemma printable_hex:
  "c \<in> set ''0123456789abcdef'' \<Longrightarrow> 32 \<le> (of_char c :: nat) \<and> (of_char c :: nat) < 127"
  by (elim disjE | simp)+

lemma esc_byte_printable:
  assumes "q = squote \<or> q = dquote" and "c \<in> set (esc_byte q b)"
  shows "32 \<le> (of_char c :: nat) \<and> (of_char c :: nat) < 127"
proof (cases "b = q \<or> b = bslash")
  case True
  with assms show ?thesis by (auto simp: esc_byte_def)
next
  case nq: False
  show ?thesis
  proof (cases "b = CHR 0x09 \<or> b = LF \<or> b = CHR 0x0D")
    case True
    with assms(2) nq show ?thesis by (auto simp: esc_byte_def)
  next
    case nc: False
    show ?thesis
    proof (cases "(of_char b :: nat) < 32 \<or> 127 \<le> (of_char b :: nat)")
      case True
      with assms(2) nq nc have "c = bslash \<or> c = CHR ''x'' \<or> c \<in> set (hex_byte b)"
        by (auto simp: esc_byte_def)
      then show ?thesis
        using printable_hex [of c] hexdigit_range by (auto simp: hex_byte_def)
    next
      case False
      with assms(2) nq nc have "c = b" by (auto simp: esc_byte_def)
      with False show ?thesis by simp
    qed
  qed
qed

lemma str_bytes_printable:
  assumes "c \<in> set (str_bytes bs)"
  shows "32 \<le> (of_char c :: nat) \<and> (of_char c :: nat) < 127"
proof -
  have q: "quote_of bs = squote \<or> quote_of bs = dquote" by (simp add: quote_of_def)
  from assms have "c = CHR ''b'' \<or> c = quote_of bs
      \<or> (\<exists>b \<in> set bs. c \<in> set (esc_byte (quote_of bs) b))"
    by (auto simp: str_bytes_def Let_def)
  then show ?thesis
    using q esc_byte_printable [OF q] by auto
qed

subsection \<open>The example stores are what parseObject builds\<close>

lemma parse_ex_commit_root:
  assumes "t \<noteq> []" "\<forall>x \<in> set t. is_hex x"
  shows "parseObject self h (ex_commit t []) =
     ([], self\<lparr>commits := dict_set h (ex_commit_rec t None) (commits self)\<rparr>)"
proof -
  have d: "''99'' \<noteq> []" "\<forall>x \<in> set ''99''. is_digit x"
    "''Ben Bitdiddle'' \<noteq> []" "\<forall>x \<in> set ''Ben Bitdiddle''. is_name x"
    "''1366331681'' \<noteq> []" "\<forall>x \<in> set ''1366331681''. is_digit x"
    "''1366331682'' \<noteq> []" "\<forall>x \<in> set ''1366331682''. is_digit x"
    by (simp_all add: is_digit_def is_name_def)
  from parse_root_commit [OF d(1,2) assms d(3,4,5,6,3,4,7,8), of self h]
  show ?thesis by (simp add: ex_commit_def ex_commit_rec_def)
qed

lemma search_ex_commit_child:
  "search blob_re (butlast (drop 2 (str_bytes (ex_commit ''a2'' ex_parent_c1)))) = None"
  "map_option (\<lambda>m. map m [1, 2, 4, 5, 6, 7, 8])
     (search commit_re (butlast (drop 2 (str_bytes (ex_commit ''a2'' ex_parent_c1)))))
   = Some [Some ''99'', Some ''a2'', Some ''c1'', Some ''Ben Bitdiddle'', Some ''1366331681'',
           Some ''Ben Bitdiddle'', Some ''1366331682'']"
  by code_simp+

lemma parse_ex_commit_child:
  "parseObject self h (ex_commit ''a2'' ex_parent_c1) =
     ([], self\<lparr>commits := dict_set h (ex_commit_rec ''a2'' (Some ''c1'')) (commits self)\<rparr>)"
  using parseObject_cases [of "ex_commit ''a2'' ex_parent_c1" self h]
    search_ex_commit_child
  by (auto simp: ex_commit_rec_def)

lemma search_ex_tree:
  assumes "b = CHR ''1'' \<or> b = CHR ''2''"
  shows "search blob_re (butlast (drop 2 (str_bytes (ex_tree b)))) = None"
    and "search commit_re (butlast (drop 2 (str_bytes (ex_tree b)))) = None"
    and "map_option (\<lambda>m. map m [1, 2])
     (search tree_re (butlast (drop 2 (str_bytes (ex_tree b)))))
   = Some [Some ''38'', Some (bslash # ''x00'' @ replicate 19 (CHR ''A'') @ [b])]"
  using assms by (elim disjE; simp only: ; code_simp)+

lemma parse_ex_tree:
  assumes "b = CHR ''1'' \<or> b = CHR ''2''"
  shows "parseObject self h (ex_tree b) =
     ([], self\<lparr>trees := dict_set h (ex_tree_rec b) (trees self)\<rparr>)"
  using parseObject_cases [of "ex_tree b" self h] search_ex_tree [OF assms]
  by (auto simp: ex_tree_rec_def)

lemma search_ex_blob:
  "map_option (\<lambda>m. map m [1, 2])
     (search blob_re (butlast (drop 2 (str_bytes (ex_blob ''37'' ''1st'')))))
   = Some [Some ''37'', Some ''1'']"
  "map_option (\<lambda>m. map m [1, 2])
     (search blob_re (butlast (drop 2 (str_bytes (ex_blob ''37'' ''2nd'')))))
   = Some [Some ''37'', Some ''2'']"
  by code_simp+

lemma parse_ex_blob:
  "parseObject self h (ex_blob ''37'' ''1st'') =
     ([], self\<lparr>blobs := dict_set h (ex_blob_rec ''1'') (blobs self)\<rparr>)"
  "parseObject self h (ex_blob ''37'' ''2nd'') =
     ([], self\<lparr>blobs := dict_set h (ex_blob_rec ''2'') (blobs self)\<rparr>)"
  using parseObject_cases [of "ex_blob ''37'' ''1st''" self h]
    parseObject_cases [of "ex_blob ''37'' ''2nd''" self h] search_ex_blob
  by (auto simp: ex_blob_rec_def)

lemmas parse_ex = parse_ex_commit_root parse_ex_commit_child parse_ex_tree parse_ex_blob

lemma ex_blob_keys: "ex_blob_key (CHR ''1'') \<noteq> ex_blob_key (CHR ''2'')"
  "ex_blob_key (CHR ''1'') @ ''a'' \<noteq> ex_blob_key (CHR ''1'') @ ''b''"
  by code_simp+

lemma hex_a: "\<forall>x \<in> set ''a1''. is_hex x" "\<forall>x \<in> set ''a2''. is_hex x"
  by (simp_all add: is_hex_def)

lemma ex_store_reachable:
  "parse_objects
     [(''c2'', ex_commit ''a2'' ex_parent_c1),
      (''c1'', ex_commit ''a1'' []),
      (''a1'', ex_tree (CHR ''1'')),
      (''a2'', ex_tree (CHR ''2'')),
      (ex_blob_key (CHR ''1''), ex_blob ''37'' ''1st''),
      (ex_blob_key (CHR ''2''), ex_blob ''37'' ''2nd'')] init = ex_store"
  by (simp add: parse_objects_def parse_ex hex_a ex_blob_keys init_def ex_store_def)

lemma ex_no_blob_reachable:
  "parse_objects [(''c1'', ex_commit ''a1'' []), (''a1'', ex_tree (CHR ''1''))] init
     = ex_no_blob"
  by (simp add: parse_objects_def parse_ex hex_a init_def ex_no_blob_def)

lemma ex_dangling_reachable:
  "parse_objects
     [(''c2'', ex_commit ''a2'' ex_parent_c1),
      (''a2'', ex_tree (CHR ''2'')),
      (ex_blob_key (CHR ''2''), ex_blob ''37'' ''2nd'')] init = ex_dangling"
  by (simp add: parse_objects_def parse_ex hex_a init_def ex_dangling_def)

lemma ex_ambiguous_reachable:
  "parse_objects
     [(''c1'', ex_commit ''a1'' []),
      (''a1'', ex_tree (CHR ''1'')),
      (ex_blob_key (CHR ''1'') @ ''a'', ex_blob ''37'' ''1st''),
      (ex_blob_key (CHR ''1'') @ ''b'', ex_blob ''37'' ''2nd'')] init = ex_ambiguous"
  by (simp add: parse_objects_def parse_ex hex_a ex_blob_keys init_def ex_ambiguous_def)

subsection \<open>A run that recognises a commit and prints no row\<close>

lemma ex_decompress_objects:
  "ex_decompress (ex_commit t p) = Some (ex_commit t p)"
  "ex_decompress (ex_tree b) = Some (ex_tree b)"
  "ex_decompress (ex_blob sz k) = Some (ex_blob sz k)"
  by (simp_all add: ex_decompress_def ex_commit_def ex_tree_def ex_blob_def)

lemma ex_blob_key_split:
  "CHR ''4'' # CHR ''1'' # drop 2 (ex_blob_key (CHR ''2'')) = ex_blob_key (CHR ''2'')"
  by code_simp

lemma read_ex_dangling_dir: "read_dirs ex_decompress ex_dangling_dir init = ([], Inr ex_dangling)"
  by (simp add: ex_dangling_dir_def ignore_dirs_def ex_decompress_objects parse_ex
                ex_blob_key_split init_def ex_dangling_def)

theorem commits_dropped_counterexample:
  "read_dirs ex_decompress ex_dangling_dir init = ([], Inr ex_dangling)
   \<and> keys (commits ex_dangling) = [''c2'']
   \<and> main ex_decompress ex_dangling_dir =
       ([print [''Total blobs '', ''1'', '' -- total trees '', ''1'', '' -- total commits '', ''1''],
         print [tablePrefix],
         print [''Commit '', ''c2'', '' has unknown parent '', ''c1'']],
        Inl (KeyError (Some ''c1'')))"
proof -
  have k: "keys (commits ex_dangling) = [''c2'']" by code_simp
  have m: "main ex_decompress ex_dangling_dir =
       ([print [''Total blobs '', ''1'', '' -- total trees '', ''1'', '' -- total commits '', ''1''],
         print [tablePrefix],
         print [''Commit '', ''c2'', '' has unknown parent '', ''c1'']],
        Inl (KeyError (Some ''c1'')))"
    unfolding main_def read_ex_dangling_dir by code_simp
  from read_ex_dangling_dir k m show ?thesis by simp
qed

section \<open>The declared size\<close>

lemma blob_class_facts:
  "\<not> is_digit (CHR ''t'')" "is_word (CHR ''t'')" "is_word (CHR ''h'')" "is_any (CHR ''.'')"
  by (simp_all add: is_digit_def is_word_def is_any_def)

lemma search_blob_th:
  assumes "n \<noteq> []" "\<forall>x \<in> set n. is_digit x" and "k \<noteq> []" "\<forall>x \<in> set k. is_digit x"
  shows "search blob_re
     (''blob '' @ n @ bslash # ''x00This is the README in the '' @ k @ ''th commit.'')
     = Some (Map.empty(1 \<mapsto> n, 2 \<mapsto> k))"
  using assms
  by (simp add: pattern_defs search_Bol ms_rules class_facts blob_class_facts
           del: ms.simps m1.simps)

lemma esc_blob_chars:
  "c \<in> set ''blob This is the README in the commit.'' \<Longrightarrow> esc_byte squote c = [c]"
  by (elim disjE | simp)+ (simp_all add: esc_byte_def)

lemma blob_th_text:
  assumes "\<forall>x \<in> set n. is_digit x" "\<forall>x \<in> set k. is_digit x"
  shows "butlast (drop 2 (str_bytes
     (''blob '' @ n @ NUL # ''This is the README in the '' @ k @ ''th commit.'')))
   = ''blob '' @ n @ bslash # ''x00This is the README in the '' @ k @ ''th commit.''"
proof -
  have q: "quote_of (''blob '' @ n @ NUL # ''This is the README in the '' @ k @ ''th commit.'')
      = squote"
    using assms by (simp add: quote_of_def no_squote)
  show ?thesis
    unfolding body_text q using assms
    by (simp add: esc_runs esc_literal esc_blob_chars)
qed

lemma blob_any_size:
  assumes "n \<noteq> []" "\<forall>x \<in> set n. is_digit x" and "k \<noteq> []" "\<forall>x \<in> set k. is_digit x"
  shows "parseObject self h
           (''blob '' @ n @ NUL # ''This is the README in the '' @ k @ ''th commit.'')
         = ([], self\<lparr>blobs := dict_set h \<lparr>blob_num = Some n, commit_order = Some k\<rparr>
                          (blobs self)\<rparr>)"
  using parseObject_cases
    [of "''blob '' @ n @ NUL # ''This is the README in the '' @ k @ ''th commit.''" self h]
  unfolding blob_th_text [OF assms(2,4)] search_blob_th [OF assms]
  by simp

text \<open>
  C5 (as amended).  For every object the classifier accepts, the size it stores is the
  non-empty run of decimal digits of the header, kept as text: for a blob and for a commit
  the bytes are the kind word, a space, these digits, a NUL byte and a payload; for a tree
  the text the pattern sees holds the word tree, a space, these digits, the escaped NUL
  and the file entry.  The size is compared with nothing: a blob record with the fixed
  text is accepted with any digits as its declared size.
\<close>

theorem declared_size_not_compared:
  "(\<forall>m. search blob_re (butlast (drop 2 (str_bytes contents))) = Some m \<longrightarrow>
      (\<exists>n payload. contents = ''blob '' @ n @ NUL # payload
         \<and> n \<noteq> [] \<and> (\<forall>y \<in> set n. is_digit y)
         \<and> parseObject self h contents =
             ([], self\<lparr>blobs := dict_set h \<lparr>blob_num = Some n, commit_order = m 2\<rparr>
                              (blobs self)\<rparr>)))
   \<and> (\<forall>m. search blob_re (butlast (drop 2 (str_bytes contents))) = None
          \<and> search commit_re (butlast (drop 2 (str_bytes contents))) = Some m \<longrightarrow>
      (\<exists>n payload. contents = ''commit '' @ n @ NUL # payload
         \<and> n \<noteq> [] \<and> (\<forall>y \<in> set n. is_digit y)
         \<and> parseObject self h contents =
             ([], self\<lparr>commits := dict_set h
                \<lparr>commit_num = Some n, tree_id = m 2, parent_id = m 4, author = m 5,
                 author_time = m 6, committer = m 7, commit_time = m 8\<rparr> (commits self)\<rparr>)))
   \<and> (\<forall>m. search blob_re (butlast (drop 2 (str_bytes contents))) = None
          \<and> search commit_re (butlast (drop 2 (str_bytes contents))) = None
          \<and> search tree_re (butlast (drop 2 (str_bytes contents))) = Some m \<longrightarrow>
      (\<exists>pre n rest. butlast (drop 2 (str_bytes contents))
             = pre @ ''tree '' @ n @ bslash # ''x00100644 README.txt'' @ rest
         \<and> n \<noteq> [] \<and> (\<forall>y \<in> set n. is_digit y)
         \<and> parseObject self h contents =
             ([], self\<lparr>trees := dict_set h
                \<lparr>tree_num = Some n, data = m 2, binary_data = contents\<rparr> (trees self)\<rparr>)))
   \<and> (\<forall>n k. n \<noteq> [] \<and> (\<forall>y \<in> set n. is_digit y) \<and> k \<noteq> [] \<and> (\<forall>y \<in> set k. is_digit y) \<longrightarrow>
         parseObject self h
           (''blob '' @ n @ NUL # ''This is the README in the '' @ k @ ''th commit.'')
         = ([], self\<lparr>blobs := dict_set h \<lparr>blob_num = Some n, commit_order = Some k\<rparr>
                          (blobs self)\<rparr>))"
proof -
  let ?T = "butlast (drop 2 (str_bytes contents))"
  have 1: "\<exists>n payload. contents = ''blob '' @ n @ NUL # payload
         \<and> n \<noteq> [] \<and> (\<forall>y \<in> set n. is_digit y)
         \<and> parseObject self h contents =
             ([], self\<lparr>blobs := dict_set h \<lparr>blob_num = Some n, commit_order = m 2\<rparr>
                              (blobs self)\<rparr>)"
    if b: "search blob_re ?T = Some m" for m
  proof -
    from blob_size_text [OF b] obtain n r where
      t: "?T = ''blob '' @ n @ bslash # ''x00'' @ r" and n: "n \<noteq> []" "\<forall>y \<in> set n. is_digit y"
      and m1: "m 1 = Some n" by blast
    have "bslash \<notin> set ''blob ''" by simp
    from header_bytes [OF t this n(2)] obtain payload where
      c: "contents = ''blob '' @ n @ NUL # payload" by blast
    have "parseObject self h contents =
             ([], self\<lparr>blobs := dict_set h \<lparr>blob_num = Some n, commit_order = m 2\<rparr>
                              (blobs self)\<rparr>)"
      using parseObject_cases [of contents self h] b m1 by simp
    with c n show ?thesis by blast
  qed
  have 2: "\<exists>n payload. contents = ''commit '' @ n @ NUL # payload
         \<and> n \<noteq> [] \<and> (\<forall>y \<in> set n. is_digit y)
         \<and> parseObject self h contents =
             ([], self\<lparr>commits := dict_set h
                \<lparr>commit_num = Some n, tree_id = m 2, parent_id = m 4, author = m 5,
                 author_time = m 6, committer = m 7, commit_time = m 8\<rparr> (commits self)\<rparr>)"
    if b: "search blob_re ?T = None" and c: "search commit_re ?T = Some m" for m
  proof -
    from commit_size_text [OF c] obtain n r where
      t: "?T = ''commit '' @ n @ bslash # ''x00'' @ r" and n: "n \<noteq> []" "\<forall>y \<in> set n. is_digit y"
      and m1: "m 1 = Some n" by blast
    have "bslash \<notin> set ''commit ''" by simp
    from header_bytes [OF t this n(2)] obtain payload where
      cc: "contents = ''commit '' @ n @ NUL # payload" by blast
    have "parseObject self h contents =
             ([], self\<lparr>commits := dict_set h
                \<lparr>commit_num = Some n, tree_id = m 2, parent_id = m 4, author = m 5,
                 author_time = m 6, committer = m 7, commit_time = m 8\<rparr> (commits self)\<rparr>)"
      using parseObject_cases [of contents self h] b c m1 by simp
    with cc n show ?thesis by blast
  qed
  have 3: "\<exists>pre n rest. ?T = pre @ ''tree '' @ n @ bslash # ''x00100644 README.txt'' @ rest
         \<and> n \<noteq> [] \<and> (\<forall>y \<in> set n. is_digit y)
         \<and> parseObject self h contents =
             ([], self\<lparr>trees := dict_set h
                \<lparr>tree_num = Some n, data = m 2, binary_data = contents\<rparr> (trees self)\<rparr>)"
    if b: "search blob_re ?T = None" and c: "search commit_re ?T = None"
      and t: "search tree_re ?T = Some m" for m
  proof -
    from tree_size_text [OF t] obtain pre n r where
      tt: "?T = pre @ ''tree '' @ n @ bslash # ''x00100644 README.txt'' @ r"
      and n: "n \<noteq> []" "\<forall>y \<in> set n. is_digit y"
      and m1: "m 1 = Some n" by blast
    have "parseObject self h contents =
             ([], self\<lparr>trees := dict_set h
                \<lparr>tree_num = Some n, data = m 2, binary_data = contents\<rparr> (trees self)\<rparr>)"
      using parseObject_cases [of contents self h] b c t m1 by simp
    with tt n show ?thesis by blast
  qed
  have 4: "parseObject self h
           (''blob '' @ n @ NUL # ''This is the README in the '' @ k @ ''th commit.'')
         = ([], self\<lparr>blobs := dict_set h \<lparr>blob_num = Some n, commit_order = Some k\<rparr>
                          (blobs self)\<rparr>)"
    if "n \<noteq> [] \<and> (\<forall>y \<in> set n. is_digit y) \<and> k \<noteq> [] \<and> (\<forall>y \<in> set k. is_digit y)" for n k
    using that blob_any_size by blast
  from 1 2 3 4 show ?thesis by blast
qed

theorem declared_size_counterexample:
  "parseObject init ''ab'' (''blob 999'' @ NUL # ''This is the README in the 1st commit.'')
     = ([], init\<lparr>blobs := [(''ab'', \<lparr>blob_num = Some ''999'', commit_order = Some ''1''\<rparr>)]\<rparr>)
   \<and> length ''This is the README in the 1st commit.'' = 37"
  by code_simp

theorem declared_size_not_compared_witness:
  "(\<exists>n payload. ex_blob ''37'' ''1st'' = ''blob '' @ n @ NUL # payload \<and> n \<noteq> []
       \<and> parseObject init ''b1'' (ex_blob ''37'' ''1st'') =
             ([], init\<lparr>blobs := dict_set ''b1'' \<lparr>blob_num = Some n, commit_order = Some ''1''\<rparr>
                              (blobs init)\<rparr>))
   \<and> (\<exists>n payload. ex_commit ''a2'' ex_parent_c1 = ''commit '' @ n @ NUL # payload \<and> n \<noteq> []
       \<and> parseObject init ''c2'' (ex_commit ''a2'' ex_parent_c1) =
             ([], init\<lparr>commits := dict_set ''c2''
                \<lparr>commit_num = Some n, tree_id = Some ''a2'', parent_id = Some ''c1'',
                 author = Some ''Ben Bitdiddle'', author_time = Some ''1366331681'',
                 committer = Some ''Ben Bitdiddle'', commit_time = Some ''1366331682''\<rparr>
                (commits init)\<rparr>))
   \<and> (\<exists>pre n rest. butlast (drop 2 (str_bytes (ex_tree (CHR ''1''))))
             = pre @ ''tree '' @ n @ bslash # ''x00100644 README.txt'' @ rest \<and> n \<noteq> []
       \<and> parseObject init ''a1'' (ex_tree (CHR ''1'')) =
             ([], init\<lparr>trees := dict_set ''a1''
                \<lparr>tree_num = Some n,
                 data = Some (bslash # ''x00'' @ replicate 19 (CHR ''A'') @ ''1''),
                 binary_data = ex_tree (CHR ''1'')\<rparr> (trees init)\<rparr>))
   \<and> parseObject init ''ab'' (''blob 999'' @ NUL # ''This is the README in the 4th commit.'')
     = ([], init\<lparr>blobs := [(''ab'', \<lparr>blob_num = Some ''999'', commit_order = Some ''4''\<rparr>)]\<rparr>)"
proof -
  from search_ex_blob(1) obtain mb where
    mb: "search blob_re (butlast (drop 2 (str_bytes (ex_blob ''37'' ''1st'')))) = Some mb"
    and mb2: "mb 2 = Some ''1''"
    by auto
  from search_ex_commit_child(2) obtain mc where
    mc: "search commit_re (butlast (drop 2 (str_bytes (ex_commit ''a2'' ex_parent_c1)))) = Some mc"
    and mcs: "mc 2 = Some ''a2''" "mc 4 = Some ''c1''" "mc 5 = Some ''Ben Bitdiddle''"
      "mc 6 = Some ''1366331681''" "mc 7 = Some ''Ben Bitdiddle''" "mc 8 = Some ''1366331682''"
    by auto
  have one: "CHR ''1'' = CHR ''1'' \<or> CHR ''1'' = CHR ''2''" by simp
  from search_ex_tree(3) [OF one] obtain mt where
    mt: "search tree_re (butlast (drop 2 (str_bytes (ex_tree (CHR ''1''))))) = Some mt"
    and mt2: "mt 2 = Some (bslash # ''x00'' @ replicate 19 (CHR ''A'') @ ''1'')"
    by auto
  have d: "''999'' \<noteq> [] \<and> (\<forall>y \<in> set ''999''. is_digit y)
         \<and> ''4'' \<noteq> [] \<and> (\<forall>y \<in> set ''4''. is_digit y)"
    by (simp add: is_digit_def)
  from declared_size_not_compared [of "ex_blob ''37'' ''1st''" init "''b1''"] mb mb2
  have 1: "\<exists>n payload. ex_blob ''37'' ''1st'' = ''blob '' @ n @ NUL # payload \<and> n \<noteq> []
       \<and> parseObject init ''b1'' (ex_blob ''37'' ''1st'') =
             ([], init\<lparr>blobs := dict_set ''b1'' \<lparr>blob_num = Some n, commit_order = Some ''1''\<rparr>
                              (blobs init)\<rparr>)"
    by fastforce
  from declared_size_not_compared [of "ex_commit ''a2'' ex_parent_c1" init "''c2''"]
    search_ex_commit_child(1) mc mcs
  have 2: "\<exists>n payload. ex_commit ''a2'' ex_parent_c1 = ''commit '' @ n @ NUL # payload \<and> n \<noteq> []
       \<and> parseObject init ''c2'' (ex_commit ''a2'' ex_parent_c1) =
             ([], init\<lparr>commits := dict_set ''c2''
                \<lparr>commit_num = Some n, tree_id = Some ''a2'', parent_id = Some ''c1'',
                 author = Some ''Ben Bitdiddle'', author_time = Some ''1366331681'',
                 committer = Some ''Ben Bitdiddle'', commit_time = Some ''1366331682''\<rparr>
                (commits init)\<rparr>)"
    by fastforce
  from declared_size_not_compared [of "ex_tree (CHR ''1'')" init "''a1''"]
    search_ex_tree(1,2) [OF one] mt mt2
  have 3: "\<exists>pre n rest. butlast (drop 2 (str_bytes (ex_tree (CHR ''1''))))
             = pre @ ''tree '' @ n @ bslash # ''x00100644 README.txt'' @ rest \<and> n \<noteq> []
       \<and> parseObject init ''a1'' (ex_tree (CHR ''1'')) =
             ([], init\<lparr>trees := dict_set ''a1''
                \<lparr>tree_num = Some n,
                 data = Some (bslash # ''x00'' @ replicate 19 (CHR ''A'') @ ''1''),
                 binary_data = ex_tree (CHR ''1'')\<rparr> (trees init)\<rparr>)"
    by fastforce
  from declared_size_not_compared [of "''blob 999'' @ NUL # ''This is the README in the 4th commit.''" init "''ab''"] d
  have "parseObject init ''ab''
           (''blob '' @ ''999'' @ NUL # ''This is the README in the '' @ ''4'' @ ''th commit.'')
         = ([], init\<lparr>blobs := dict_set ''ab'' \<lparr>blob_num = Some ''999'', commit_order = Some ''4''\<rparr>
                          (blobs init)\<rparr>)"
    by blast
  then have 4: "parseObject init ''ab'' (''blob 999'' @ NUL # ''This is the README in the 4th commit.'')
     = ([], init\<lparr>blobs := [(''ab'', \<lparr>blob_num = Some ''999'', commit_order = Some ''4''\<rparr>)]\<rparr>)"
    by (simp add: init_def)
  from 1 2 3 4 show ?thesis by blast
qed

end
